theory Spec2Isabelle
  imports Complex_Main "HOL-Library.AList"
begin

section \<open>Data model (src/types/types.ts)\<close>

text \<open>
  Addresses and mint identifiers are JavaScript strings, amounts are \<open>bigint\<close>
  (unbounded integers), a \<open>Date\<close> is its epoch time in milliseconds. A registered
  callback is a function value compared by identity; it is represented by a number.
\<close>

type_synonym address = string
type_synonym date = int
type_synonym callback = nat

record TokenBalance =
  mint :: string
  amount :: int
  decimals :: nat

record WalletHoldings =
  address :: address
  tokens :: "TokenBalance list"
  lastUpdated :: date

text \<open>
  \<open>TokenChange\<close>: the fields \<open>mint\<close> and \<open>decimals\<close> of the source are
  \<open>ch_mint\<close> and \<open>ch_decimals\<close> here, since \<open>TokenBalance\<close> has fields of
  the same names.
\<close>

record TokenChange =
  ch_mint :: string
  oldBalance :: int
  newBalance :: int
  timestamp :: date
  ch_decimals :: nat

section \<open>The diff engine: \<open>WalletTracker.detectChanges\<close>\<close>

text \<open>
  The first loop of \<open>detectChanges\<close>: for each current token, \<open>find\<close> the first
  previous token of the same mint; push a change when there is none or its amount
  differs (\<open>!==\<close> on bigints compares values).
\<close>

fun detectUpdated ::
  "date \<Rightarrow> TokenBalance list \<Rightarrow> TokenBalance list \<Rightarrow> TokenChange list \<Rightarrow> TokenChange list" where
  "detectUpdated ts previousTokens [] changes = changes"
| "detectUpdated ts previousTokens (currentToken # rest) changes =
     (case find (\<lambda>t. mint t = mint currentToken) previousTokens of
        None \<Rightarrow>
          detectUpdated ts previousTokens rest
            (changes @ [\<lparr>ch_mint = mint currentToken, oldBalance = 0,
                          newBalance = amount currentToken, timestamp = ts,
                          ch_decimals = decimals currentToken\<rparr>])
      | Some previousToken \<Rightarrow>
          if amount previousToken \<noteq> amount currentToken
          then detectUpdated ts previousTokens rest
            (changes @ [\<lparr>ch_mint = mint currentToken, oldBalance = amount previousToken,
                          newBalance = amount currentToken, timestamp = ts,
                          ch_decimals = decimals currentToken\<rparr>])
          else detectUpdated ts previousTokens rest changes)"

text \<open>
  The second loop: each previous token whose mint no current token has (\<open>some\<close>)
  is pushed as a closed position.
\<close>

fun detectRemoved ::
  "date \<Rightarrow> TokenBalance list \<Rightarrow> TokenBalance list \<Rightarrow> TokenChange list \<Rightarrow> TokenChange list" where
  "detectRemoved ts [] currentTokens changes = changes"
| "detectRemoved ts (previousToken # rest) currentTokens changes =
     (if \<not> list_ex (\<lambda>t. mint t = mint previousToken) currentTokens
      then detectRemoved ts rest currentTokens
        (changes @ [\<lparr>ch_mint = mint previousToken, oldBalance = amount previousToken,
                      newBalance = 0, timestamp = ts,
                      ch_decimals = decimals previousToken\<rparr>])
      else detectRemoved ts rest currentTokens changes)"

text \<open>
  \<open>detectChanges\<close> pushes onto the array it is given; the model returns the
  extended array. \<open>ts\<close> is the \<open>new Date()\<close> taken on entry.
\<close>

definition detectChanges ::
  "date \<Rightarrow> TokenBalance list \<Rightarrow> TokenBalance list \<Rightarrow> TokenChange list \<Rightarrow> TokenChange list" where
  "detectChanges ts previousTokens currentTokens changes =
     detectRemoved ts previousTokens currentTokens
       (detectUpdated ts previousTokens currentTokens changes)"

text \<open>
  The amount a snapshot records for a mint (absent when the snapshot does not hold the
  mint). This is the reading of \<open>old.amount\<close> and \<open>new.amount\<close> in the
  specification of the diff; it is not part of the source.
\<close>

definition amount_of :: "TokenBalance list \<Rightarrow> string \<Rightarrow> int option" where
  "amount_of snapshot m = map_option amount (find (\<lambda>t. mint t = m) snapshot)"

definition balance_or_zero :: "int option \<Rightarrow> int" where
  "balance_or_zero a = (case a of None \<Rightarrow> 0 | Some v \<Rightarrow> v)"

section \<open>The tracker state and its collaborators (src/services/walletTracker.ts)\<close>

text \<open>
  Whatever is thrown: the \<open>Error("Invalid wallet address")\<close> of the tracker, a failure
  of the ledger connection, or an exception of a registered callback. The text of the
  latter two comes from outside the tracker.
\<close>

datatype error = InvalidWalletAddress | LedgerError string | CallbackError string

text \<open>What \<open>`${error}`\<close> prints.\<close>

fun error_text :: "error \<Rightarrow> string" where
  "error_text InvalidWalletAddress = ''Error: Invalid wallet address''"
| "error_text (LedgerError msg) = msg"
| "error_text (CallbackError msg) = msg"

text \<open>The events of the \<open>EventEmitter\<close>, by name and arguments.\<close>

datatype event =
    EvError string
  | EvChanges address "TokenChange list"
  | EvSubscribed address
  | EvUnsubscribed address
  | EvPaused
  | EvResumed
  | EvShutdown
  | EvRefreshed

text \<open>
  The ledger connection, as far as the tracker uses it: the account-change listeners
  that are live (client subscription id and watched address) and the next id it hands
  out. The connection is the library's (\<open>@solana/web3.js\<close>), not the repository's;
  what is modelled is its contract: a watch returns a handle that was never handed out
  before, and cancelling a handle ends its listener.
\<close>

record connection =
  nextId :: nat
  listeners :: "(nat \<times> address) list"

text \<open>
  The fields of \<open>WalletTracker\<close>. A JavaScript \<open>Map\<close> is an association list in
  insertion order (\<open>AList.update\<close> keeps the position of a key that is present and
  appends a new one, as \<open>Map.set\<close> does), a \<open>Set\<close> of callbacks a list in
  insertion order. \<open>emitted\<close> is the sequence of events emitted so far and
  \<open>delivered\<close> the sequence of callback invocations; both are observations and no
  field of the class. \<open>tokenMetadataCache\<close> is only ever cleared and is left out.
\<close>

record tracker =
  connection :: connection
  holdingsCache :: "(address \<times> WalletHoldings) list"
  subscriptions :: "(address \<times> nat) list"
  eventHandlers :: "(address \<times> callback list) list"
  updateLatencies :: "int list"
  isPaused :: bool
  updateCount :: nat
  errorCount :: nat
  emitted :: "event list"
  delivered :: "(callback \<times> TokenChange list) list"

text \<open>
  What the world outside the tracker answers while one operation runs:
  \<^item> \<open>valid a\<close>: \<open>new PublicKey(a)\<close> does not throw;
  \<^item> \<open>formatWalletName\<close>: the label of an address (config collaborator);
  \<^item> \<open>getParsedTokenAccountsByOwner a\<close>: the outcome of the body of the \<open>try\<close>
    in \<open>getTokenAccounts\<close>, the balances read or the exception thrown;
  \<^item> \<open>onAccountChange_error a\<close>, \<open>removeListener_error i\<close>, \<open>getSlot_error\<close>:
    the exception of that call of the connection, if it throws;
  \<^item> \<open>handler_error cb\<close>: the exception the registered callback \<open>cb\<close> throws, if
    it throws;
  \<^item> \<open>now\<close>: the clock (\<open>Date.now()\<close>, \<open>new Date()\<close>).
\<close>

record world =
  valid :: "address \<Rightarrow> bool"
  formatWalletName :: "address \<Rightarrow> string"
  getParsedTokenAccountsByOwner :: "address \<Rightarrow> error + TokenBalance list"
  onAccountChange_error :: "address \<Rightarrow> error option"
  removeListener_error :: "nat \<Rightarrow> error option"
  getSlot_error :: "error option"
  handler_error :: "callback \<Rightarrow> error option"
  now :: date

text \<open>
  \<open>this.emit\<close>: the event is appended to the sequence of emitted events. The
  listeners of the events belong to the application; they are taken to return normally,
  and one is registered for \<open>error\<close> (src/index.ts), so that emitting never throws.
\<close>

definition emit :: "event \<Rightarrow> tracker \<Rightarrow> tracker" where
  "emit e st = st\<lparr>emitted := emitted st @ [e]\<rparr>"

text \<open>\<open>connection.onAccountChange\<close>: registers a listener and returns its id.\<close>

definition onAccountChange :: "world \<Rightarrow> address \<Rightarrow> connection \<Rightarrow> error + (nat \<times> connection)" where
  "onAccountChange w a c =
     (case onAccountChange_error w a of
        Some e \<Rightarrow> Inl e
      | None \<Rightarrow> Inr (nextId c, c\<lparr>nextId := nextId c + 1,
                                     listeners := listeners c @ [(nextId c, a)]\<rparr>))"

text \<open>\<open>connection.removeAccountChangeListener\<close>: the listener of that id is gone.\<close>

definition removeAccountChangeListener :: "world \<Rightarrow> nat \<Rightarrow> connection \<Rightarrow> error + connection" where
  "removeAccountChangeListener w i c =
     (case removeListener_error w i of
        Some e \<Rightarrow> Inl e
      | None \<Rightarrow> Inr (c\<lparr>listeners := filter (\<lambda>l. fst l \<noteq> i) (listeners c)\<rparr>))"

text \<open>\<open>Set.add\<close>: a member already present stays where it is.\<close>

definition set_add :: "callback \<Rightarrow> callback list \<Rightarrow> callback list" where
  "set_add cb hs = (if cb \<in> set hs then hs else hs @ [cb])"

subsection \<open>\<open>getTokenAccounts\<close> and \<open>updateWalletHoldings\<close>\<close>

text \<open>
  \<open>getTokenAccounts\<close>: any exception of the read is caught, reported as an
  \<open>error\<close> event and answered by the empty array.
\<close>

definition getTokenAccounts :: "world \<Rightarrow> address \<Rightarrow> tracker \<Rightarrow> TokenBalance list \<times> tracker" where
  "getTokenAccounts w walletAddress st =
     (case getParsedTokenAccountsByOwner w walletAddress of
        Inr accounts \<Rightarrow> (accounts, st)
      | Inl e \<Rightarrow>
          ([], emit (EvError (''Error fetching token accounts for ''
                               @ formatWalletName w walletAddress @ '': '' @ error_text e)) st))"

text \<open>The change pushed for a token when the address has no previous holdings.\<close>

definition newTokenChange :: "date \<Rightarrow> TokenBalance \<Rightarrow> TokenChange" where
  "newTokenChange ts token =
     \<lparr>ch_mint = mint token, oldBalance = 0, newBalance = amount token,
      timestamp = ts, ch_decimals = decimals token\<rparr>"

text \<open>
  \<open>updateWalletHoldings\<close>. The result is a sum, as for every asynchronous method:
  \<open>Inl\<close> would be a rejected promise.
\<close>

definition updateWalletHoldings ::
  "world \<Rightarrow> address \<Rightarrow> tracker \<Rightarrow> (error + TokenChange list) \<times> tracker" where
  "updateWalletHoldings w walletAddress st =
     (let (toks, st1) = getTokenAccounts w walletAddress st;
          previousHoldings = map_of (holdingsCache st1) walletAddress;
          currentHoldings = \<lparr>address = walletAddress, tokens = toks, lastUpdated = now w\<rparr>;
          changes = (case previousHoldings of
                       Some previous \<Rightarrow> detectChanges (now w) (tokens previous) toks []
                     | None \<Rightarrow> map (newTokenChange (now w)) toks)
      in (Inr changes,
          st1\<lparr>holdingsCache := AList.update walletAddress currentHoldings (holdingsCache st1)\<rparr>))"

subsection \<open>\<open>setupWebSocketSubscription\<close> and the notification handler\<close>

text \<open>
  \<open>handlers.forEach((handler) => handler(changes))\<close>: the callbacks are invoked in
  insertion order; an exception of one ends the iteration.
\<close>

fun invokeHandlers ::
  "world \<Rightarrow> callback list \<Rightarrow> TokenChange list \<Rightarrow> tracker \<Rightarrow> (error + unit) \<times> tracker" where
  "invokeHandlers w [] changes st = (Inr (), st)"
| "invokeHandlers w (handler # rest) changes st =
     (let st1 = st\<lparr>delivered := delivered st @ [(handler, changes)]\<rparr>
      in case handler_error w handler of
           Some e \<Rightarrow> (Inl e, st1)
         | None \<Rightarrow> invokeHandlers w rest changes st1)"

definition handlersOf :: "tracker \<Rightarrow> address \<Rightarrow> callback list" where
  "handlersOf st a = (case map_of (eventHandlers st) a of None \<Rightarrow> [] | Some hs \<Rightarrow> hs)"

text \<open>
  The listener that \<open>setupWebSocketSubscription\<close> registers for \<open>walletAddress\<close>,
  run on one account change. \<open>finish\<close> is the clock after the refresh; the clock
  before it is \<open>now w\<close>.
\<close>

definition processingFailed :: "error \<Rightarrow> tracker \<Rightarrow> tracker" where
  "processingFailed e st =
     emit (EvError (''Error processing wallet update: '' @ error_text e))
       (st\<lparr>errorCount := errorCount st + 1\<rparr>)"

definition accountChangeHandler :: "world \<Rightarrow> date \<Rightarrow> address \<Rightarrow> tracker \<Rightarrow> tracker" where
  "accountChangeHandler w finish walletAddress st =
     (case updateWalletHoldings w walletAddress st of
        (Inl e, st1) \<Rightarrow> processingFailed e st1
      | (Inr changes, st1) \<Rightarrow>
          (let st2 = st1\<lparr>updateLatencies := updateLatencies st1 @ [finish - now w]\<rparr>
           in if length changes > 0
              then (case invokeHandlers w (handlersOf st2 walletAddress) changes st2 of
                      (Inl e, st3) \<Rightarrow> processingFailed e st3
                    | (Inr u, st3) \<Rightarrow>
                        (let st4 = emit (EvChanges walletAddress changes) st3
                         in st4\<lparr>updateCount := updateCount st4 + 1\<rparr>))
              else st2\<lparr>updateCount := updateCount st2 + 1\<rparr>))"

definition setupWebSocketSubscription ::
  "world \<Rightarrow> address \<Rightarrow> callback \<Rightarrow> tracker \<Rightarrow> (error + unit) \<times> tracker" where
  "setupWebSocketSubscription w walletAddress callback st =
     (if \<not> valid w walletAddress then (Inl InvalidWalletAddress, st)
      else if map_of (subscriptions st) walletAddress \<noteq> None
      then (Inr (),
            st\<lparr>eventHandlers :=
                 AList.update walletAddress (set_add callback (handlersOf st walletAddress))
                   (eventHandlers st)\<rparr>)
      else
        (let st1 = st\<lparr>eventHandlers := AList.update walletAddress [callback] (eventHandlers st)\<rparr>
         in case onAccountChange w walletAddress (connection st1) of
              Inl e \<Rightarrow>
                (Inl e, emit (EvError (''Failed to setup subscription: '' @ error_text e)) st1)
            | Inr (subscriptionId, conn) \<Rightarrow>
                (let st2 = st1\<lparr>connection := conn,
                               subscriptions :=
                                 AList.update walletAddress subscriptionId (subscriptions st1)\<rparr>
                 in case updateWalletHoldings w walletAddress st2 of
                      (Inl e, st3) \<Rightarrow>
                        (Inl e,
                         emit (EvError (''Failed to setup subscription: '' @ error_text e)) st3)
                    | (Inr changes, st3) \<Rightarrow> (Inr (), emit (EvSubscribed walletAddress) st3))))"

subsection \<open>\<open>removeSubscription\<close>, \<open>shutdown\<close>, \<open>pauseTracking\<close>, \<open>resumeTracking\<close>\<close>

text \<open>
  \<open>removeSubscription\<close> returns at once when \<open>!subscriptionId\<close>: the address has
  no entry in \<open>subscriptions\<close>, or its id is the number 0.
\<close>

definition removeSubscription :: "world \<Rightarrow> address \<Rightarrow> tracker \<Rightarrow> (error + unit) \<times> tracker" where
  "removeSubscription w walletAddress st =
     (case map_of (subscriptions st) walletAddress of
        None \<Rightarrow> (Inr (), st)
      | Some subscriptionId \<Rightarrow>
          if subscriptionId = 0 then (Inr (), st)
          else (case removeAccountChangeListener w subscriptionId (connection st) of
                  Inl e \<Rightarrow>
                    (Inl e, emit (EvError (''Error removing subscription: '' @ error_text e)) st)
                | Inr conn \<Rightarrow>
                    (Inr (),
                     emit (EvUnsubscribed walletAddress)
                       (st\<lparr>connection := conn,
                           subscriptions := AList.delete walletAddress (subscriptions st),
                           eventHandlers := AList.delete walletAddress (eventHandlers st),
                           holdingsCache := AList.delete walletAddress (holdingsCache st)\<rparr>))))"

text \<open>
  \<open>shutdown\<close> starts the removal of every listener at once (\<open>Promise.all\<close>): each
  removal that succeeds takes effect, and the first one that fails (in the order of the
  entries) rejects the whole.
\<close>

fun removeAll_listeners ::
  "world \<Rightarrow> (address \<times> nat) list \<Rightarrow> connection \<Rightarrow> error option \<times> connection" where
  "removeAll_listeners w [] c = (None, c)"
| "removeAll_listeners w ((a, i) # rest) c =
     (case removeAccountChangeListener w i c of
        Inl e \<Rightarrow> (Some e, snd (removeAll_listeners w rest c))
      | Inr c1 \<Rightarrow> removeAll_listeners w rest c1)"

definition shutdown :: "world \<Rightarrow> tracker \<Rightarrow> (error + unit) \<times> tracker" where
  "shutdown w st =
     (case removeAll_listeners w (subscriptions st) (connection st) of
        (Some e, conn) \<Rightarrow>
          (Inl e,
           emit (EvError (''Error during shutdown: '' @ error_text e)) (st\<lparr>connection := conn\<rparr>))
      | (None, conn) \<Rightarrow>
          (Inr (),
           emit EvShutdown
             (st\<lparr>connection := conn, subscriptions := [], eventHandlers := [],
                 holdingsCache := [], updateLatencies := []\<rparr>)))"

text \<open>
  The loop of \<open>pauseTracking\<close> over the entries \<open>subscriptions\<close> had on entry: remove
  the listener, then delete the entry; an exception leaves the loop.
\<close>

fun pauseLoop :: "world \<Rightarrow> (address \<times> nat) list \<Rightarrow> tracker \<Rightarrow> (error + unit) \<times> tracker" where
  "pauseLoop w [] st = (Inr (), st)"
| "pauseLoop w ((a, i) # rest) st =
     (case removeAccountChangeListener w i (connection st) of
        Inl e \<Rightarrow> (Inl e, st)
      | Inr conn \<Rightarrow>
          pauseLoop w rest
            (st\<lparr>connection := conn, subscriptions := AList.delete a (subscriptions st)\<rparr>))"

definition pauseTracking :: "world \<Rightarrow> tracker \<Rightarrow> (error + unit) \<times> tracker" where
  "pauseTracking w st =
     (if isPaused st then (Inr (), st)
      else (case pauseLoop w (subscriptions st) st of
              (Inl e, st1) \<Rightarrow>
                (Inl e, emit (EvError (''Error pausing tracking: '' @ error_text e)) st1)
            | (Inr u, st1) \<Rightarrow> (Inr (), emit EvPaused (st1\<lparr>isPaused := True\<rparr>))))"

text \<open>
  The inner loop of \<open>resumeTracking\<close>: one \<open>setupWebSocketSubscription\<close> for each
  callback of the set that \<open>eventHandlers\<close> held for the address when the loop began.
\<close>

fun resumeHandlers ::
  "world \<Rightarrow> address \<Rightarrow> callback list \<Rightarrow> tracker \<Rightarrow> (error + unit) \<times> tracker" where
  "resumeHandlers w a [] st = (Inr (), st)"
| "resumeHandlers w a (handler # rest) st =
     (case setupWebSocketSubscription w a handler st of
        (Inl e, st1) \<Rightarrow> (Inl e, st1)
      | (Inr u, st1) \<Rightarrow> resumeHandlers w a rest st1)"

text \<open>The outer loop, over the keys \<open>holdingsCache\<close> had on entry.\<close>

fun resumeAddresses :: "world \<Rightarrow> address list \<Rightarrow> tracker \<Rightarrow> (error + unit) \<times> tracker" where
  "resumeAddresses w [] st = (Inr (), st)"
| "resumeAddresses w (a # rest) st =
     (case map_of (eventHandlers st) a of
        None \<Rightarrow> resumeAddresses w rest st
      | Some handlers \<Rightarrow>
          (case resumeHandlers w a handlers st of
             (Inl e, st1) \<Rightarrow> (Inl e, st1)
           | (Inr u, st1) \<Rightarrow> resumeAddresses w rest st1))"

definition resumeTracking :: "world \<Rightarrow> tracker \<Rightarrow> (error + unit) \<times> tracker" where
  "resumeTracking w st =
     (if \<not> isPaused st then (Inr (), st)
      else (case resumeAddresses w (map fst (holdingsCache st)) st of
              (Inl e, st1) \<Rightarrow>
                (Inl e, emit (EvError (''Error resuming tracking: '' @ error_text e)) st1)
            | (Inr u, st1) \<Rightarrow> (Inr (), emit EvResumed (st1\<lparr>isPaused := False\<rparr>))))"

subsection \<open>\<open>refreshAllHoldings\<close>\<close>

text \<open>
  One refresh per key \<open>holdingsCache\<close> had on entry, here one after the other in key
  order; an exception of a callback is caught per address.
\<close>

definition refreshOne :: "world \<Rightarrow> address \<Rightarrow> tracker \<Rightarrow> tracker" where
  "refreshOne w a st =
     (case updateWalletHoldings w a st of
        (Inl e, st1) \<Rightarrow>
          emit (EvError (''Error refreshing holdings for '' @ formatWalletName w a
                          @ '': '' @ error_text e)) st1
      | (Inr changes, st1) \<Rightarrow>
          if length changes > 0
          then (case invokeHandlers w (handlersOf st1 a) changes st1 of
                  (Inl e, st2) \<Rightarrow>
                    emit (EvError (''Error refreshing holdings for '' @ formatWalletName w a
                                    @ '': '' @ error_text e)) st2
                | (Inr u, st2) \<Rightarrow> emit (EvChanges a changes) st2)
          else st1)"

definition refreshAllHoldings :: "world \<Rightarrow> tracker \<Rightarrow> (error + unit) \<times> tracker" where
  "refreshAllHoldings w st =
     (Inr (), emit EvRefreshed (fold (refreshOne w) (map fst (holdingsCache st)) st))"

subsection \<open>\<open>checkHealth\<close>\<close>

datatype health = healthy | degraded | unhealthy

record HealthDetails =
  activeSubscriptions :: nat
  cachedWallets :: nat
  lastUpdate :: "date option"
  errors :: "string list"

record HealthStatus =
  status :: health
  details :: HealthDetails

text \<open>A number in a template string: its decimal digits.\<close>

function show_nat :: "nat \<Rightarrow> string" where
  "show_nat n =
     (if n < 10 then [char_of (48 + n)] else show_nat (n div 10) @ [char_of (48 + n mod 10)])"
  by pat_completeness auto
termination
  by (relation "measure id") auto

text \<open>The scan of the cached snapshots for the most recent \<open>lastUpdated\<close>.\<close>

fun latestUpdate :: "WalletHoldings list \<Rightarrow> date option \<Rightarrow> date option" where
  "latestUpdate [] lastUpd = lastUpd"
| "latestUpdate (holdings # rest) lastUpd =
     (case lastUpd of
        None \<Rightarrow> latestUpdate rest (Some (lastUpdated holdings))
      | Some t \<Rightarrow>
          if lastUpdated holdings > t then latestUpdate rest (Some (lastUpdated holdings))
          else latestUpdate rest lastUpd)"

definition staleErrors :: "world \<Rightarrow> date option \<Rightarrow> string list" where
  "staleErrors w lastUpd =
     (case lastUpd of
        None \<Rightarrow> []
      | Some t \<Rightarrow> if now w - t > 5 * 60 * 1000 then [''Some wallet data may be stale''] else [])"

definition mismatchErrors :: "tracker \<Rightarrow> string list" where
  "mismatchErrors st =
     (let activeSubs = length (subscriptions st);
          expectedSubs = length (eventHandlers st)
      in if activeSubs \<noteq> expectedSubs
         then [''Subscription mismatch: '' @ show_nat activeSubs @ ''/'' @ show_nat expectedSubs]
         else [])"

definition classify :: "string list \<Rightarrow> health" where
  "classify errs =
     (if length errs = 0 then healthy else if length errs < 2 then degraded else unhealthy)"

text \<open>
  \<open>checkHealth\<close>: the probe, the scan and both checks are the body of one \<open>try\<close>;
  its \<open>catch\<close> pushes the connection error. \<open>error_text\<close> stands for the message
  of the exception.
\<close>

definition checkHealth :: "world \<Rightarrow> tracker \<Rightarrow> HealthStatus" where
  "checkHealth w st =
     (let (lastUpd, errs) =
            (case getSlot_error w of
               Some e \<Rightarrow> (None, [''Connection error: '' @ error_text e])
             | None \<Rightarrow>
                 (let lastUpd = latestUpdate (map snd (holdingsCache st)) None
                  in (lastUpd, staleErrors w lastUpd @ mismatchErrors st)))
      in \<lparr>status = classify errs,
          details = \<lparr>activeSubscriptions = length (subscriptions st),
                     cachedWallets = length (holdingsCache st),
                     lastUpdate = lastUpd,
                     errors = errs\<rparr>\<rparr>)"

subsection \<open>\<open>getMetrics\<close>\<close>

text \<open>
  JavaScript numbers are taken as real numbers: the sum of the integer latencies and
  the counters are exact, the one division is not rounded.
\<close>

record Performance =
  updateLatency :: real
  successRate :: real
  perf_errorCount :: nat

record Usage =
  totalUpdates :: nat
  usage_activeSubscriptions :: nat

record Metrics =
  performance :: Performance
  usage :: Usage

definition getMetrics :: "tracker \<Rightarrow> Metrics" where
  "getMetrics st =
     (let avgLatency =
            (if length (updateLatencies st) > 0
             then real_of_int (foldl (+) 0 (updateLatencies st)) / real (length (updateLatencies st))
             else 0)
      in \<lparr>performance =
            \<lparr>updateLatency = avgLatency,
             successRate =
               (if updateCount st > 0
                then (real (updateCount st) - real (errorCount st)) / real (updateCount st)
                else 1),
             perf_errorCount = errorCount st\<rparr>,
          usage =
            \<lparr>totalUpdates = updateCount st,
             usage_activeSubscriptions = length (subscriptions st)\<rparr>\<rparr>)"

section \<open>The tracker as a state machine\<close>

text \<open>
  The operations that change the tracker, each run to completion: the public methods and
  the arrival of an account change at the live listener of a subscription id (with the
  clock after its refresh). A notification for an id that has no live listener invokes
  nothing.
\<close>

datatype operation =
    Subscribe address callback
  | Unsubscribe address
  | Shutdown
  | Pause
  | Resume
  | Refresh address
  | RefreshAll
  | AccountChanged nat date

fun step :: "world \<Rightarrow> operation \<Rightarrow> tracker \<Rightarrow> tracker" where
  "step w (Subscribe a cb) st = snd (setupWebSocketSubscription w a cb st)"
| "step w (Unsubscribe a) st = snd (removeSubscription w a st)"
| "step w Shutdown st = snd (shutdown w st)"
| "step w Pause st = snd (pauseTracking w st)"
| "step w Resume st = snd (resumeTracking w st)"
| "step w (Refresh a) st = snd (updateWalletHoldings w a st)"
| "step w RefreshAll st = snd (refreshAllHoldings w st)"
| "step w (AccountChanged i finish) st =
     (case map_of (listeners (connection st)) i of
        None \<Rightarrow> st
      | Some a \<Rightarrow> accountChangeHandler w finish a st)"

text \<open>The ids of the listeners that are live for an address.\<close>

definition watchesOf :: "tracker \<Rightarrow> address \<Rightarrow> nat list" where
  "watchesOf st a = map fst (filter (\<lambda>l. snd l = a) (listeners (connection st)))"

text \<open>
  The tracker and its connection agree: \<open>subscriptions\<close> has one entry per key (it is
  a \<open>Map\<close>), the connection never handed out an id twice, and every live listener is
  the one \<open>subscriptions\<close> records for its address.
\<close>

definition consistent :: "tracker \<Rightarrow> bool" where
  "consistent st \<longleftrightarrow>
     distinct (map fst (subscriptions st)) \<and>
     distinct (map fst (listeners (connection st))) \<and>
     list_all (\<lambda>l. fst l < nextId (connection st) \<and>
                    map_of (subscriptions st) (snd l) = Some (fst l))
       (listeners (connection st))"

text \<open>
  The maps of the tracker have one entry per key and its callback sets no member twice,
  as a \<open>Map\<close> and a \<open>Set\<close> do.
\<close>

definition wellFormed :: "tracker \<Rightarrow> bool" where
  "wellFormed st \<longleftrightarrow>
     distinct (map fst (holdingsCache st)) \<and>
     distinct (map fst (eventHandlers st)) \<and>
     list_all (\<lambda>entry. distinct (snd entry)) (eventHandlers st)"

text \<open>
  The callbacks that one \<open>forEach\<close> over a callback set invokes: those in insertion
  order up to and including the first that throws.
\<close>

fun reached :: "world \<Rightarrow> callback list \<Rightarrow> callback list" where
  "reached w [] = []"
| "reached w (h # hs) =
     h # (case handler_error w h of Some e \<Rightarrow> [] | None \<Rightarrow> reached w hs)"

text \<open>What a refresh of the address stores: the balances read, or none when the read fails.\<close>

definition readOrEmpty :: "world \<Rightarrow> address \<Rightarrow> TokenBalance list" where
  "readOrEmpty w a = (case getParsedTokenAccountsByOwner w a of Inr accounts \<Rightarrow> accounts | Inl e \<Rightarrow> [])"

definition freshHoldings :: "world \<Rightarrow> address \<Rightarrow> WalletHoldings" where
  "freshHoldings w a = \<lparr>address = a, tokens = readOrEmpty w a, lastUpdated = now w\<rparr>"

section \<open>Example inputs\<close>

text \<open>
  A world in which every call succeeds and every wallet holds 1000 units of mint X, and
  one in which the ledger cannot be reached.
\<close>

definition exampleWorld :: world where
  "exampleWorld =
     \<lparr>valid = (\<lambda>a. True),
      formatWalletName = (\<lambda>a. a),
      getParsedTokenAccountsByOwner = (\<lambda>a. Inr [\<lparr>mint = ''X'', amount = 1000, decimals = 6\<rparr>]),
      onAccountChange_error = (\<lambda>a. None),
      removeListener_error = (\<lambda>i. None),
      getSlot_error = None,
      handler_error = (\<lambda>cb. None),
      now = 1000000\<rparr>"

definition outageWorld :: world where
  "outageWorld =
     exampleWorld\<lparr>getParsedTokenAccountsByOwner := (\<lambda>a. Inl (LedgerError ''timeout'')),
                  getSlot_error := Some (LedgerError ''timeout''),
                  now := 2000000\<rparr>"

text \<open>The ledger reports the wallets empty, ten minutes and more later.\<close>

definition emptiedWorld :: world where
  "emptiedWorld =
     exampleWorld\<lparr>getParsedTokenAccountsByOwner := (\<lambda>a. Inr []), now := 2000000\<rparr>"

text \<open>The wallets are reported empty and every registered callback throws.\<close>

definition throwingWorld :: world where
  "throwingWorld = emptiedWorld\<lparr>handler_error := (\<lambda>cb. Some (CallbackError ''boom''))\<rparr>"

text \<open>The wallets are reported empty and callback 1 throws; every other callback returns.\<close>

definition firstThrowsWorld :: world where
  "firstThrowsWorld =
     emptiedWorld\<lparr>handler_error :=
       (\<lambda>cb. if cb = 1 then Some (CallbackError ''boom'') else None)\<rparr>"

text \<open>
  An example tracker with nothing subscribed and nothing cached, on a connection that has
  handed out id 0 before, so that its next id is 1. (It is not the state right after the
  constructor: a new connection starts at id 0.)
\<close>

definition freshTracker :: tracker where
  "freshTracker =
     \<lparr>connection = \<lparr>nextId = 1, listeners = []\<rparr>,
      holdingsCache = [], subscriptions = [], eventHandlers = [],
      updateLatencies = [], isPaused = False, updateCount = 0, errorCount = 0,
      emitted = [], delivered = []\<rparr>"

text \<open>Wallet A subscribed with callback 1 in \<open>exampleWorld\<close>, written out.\<close>

definition subscribedTracker :: tracker where
  "subscribedTracker =
     \<lparr>connection = \<lparr>nextId = 2, listeners = [(1, ''A'')]\<rparr>,
      holdingsCache =
        [(''A'', \<lparr>address = ''A'', tokens = [\<lparr>mint = ''X'', amount = 1000, decimals = 6\<rparr>],
                  lastUpdated = 1000000\<rparr>)],
      subscriptions = [(''A'', 1)], eventHandlers = [(''A'', [1])],
      updateLatencies = [], isPaused = False, updateCount = 0, errorCount = 0,
      emitted = [EvSubscribed ''A''], delivered = []\<rparr>"

text \<open>Wallet A subscribed a second time, with callback 2.\<close>

definition multiplexedTracker :: tracker where
  "multiplexedTracker = subscribedTracker\<lparr>eventHandlers := [(''A'', [1, 2])]\<rparr>"

text \<open>The tracker \<open>subscribedTracker\<close> after \<open>pauseTracking\<close>, written out.\<close>

definition pausedTracker :: tracker where
  "pausedTracker =
     \<lparr>connection = \<lparr>nextId = 2, listeners = []\<rparr>,
      holdingsCache =
        [(''A'', \<lparr>address = ''A'', tokens = [\<lparr>mint = ''X'', amount = 1000, decimals = 6\<rparr>],
                  lastUpdated = 1000000\<rparr>)],
      subscriptions = [], eventHandlers = [(''A'', [1])],
      updateLatencies = [], isPaused = True, updateCount = 0, errorCount = 0,
      emitted = [EvSubscribed ''A'', EvPaused], delivered = []\<rparr>"

text \<open>The paused tracker after \<open>resumeTracking\<close> in \<open>emptiedWorld\<close>, written out.\<close>

definition resumedTracker :: tracker where
  "resumedTracker =
     \<lparr>connection = \<lparr>nextId = 3, listeners = [(2, ''A'')]\<rparr>,
      holdingsCache = [(''A'', \<lparr>address = ''A'', tokens = [], lastUpdated = 2000000\<rparr>)],
      subscriptions = [(''A'', 2)], eventHandlers = [(''A'', [1])],
      updateLatencies = [], isPaused = False, updateCount = 0, errorCount = 0,
      emitted = [EvSubscribed ''A'', EvPaused, EvSubscribed ''A'', EvResumed], delivered = []\<rparr>"

section \<open>Properties of the diff engine\<close>

lemma detectUpdated_append:
  "detectUpdated ts prev cur acc = acc @ detectUpdated ts prev cur []"
proof (induction cur arbitrary: acc)
  case Nil
  show ?case by simp
next
  case (Cons c cur)
  show ?case
    using Cons.IH [of "acc @ [x]" for x] Cons.IH [of "[x]" for x] Cons.IH [of acc]
    by (simp split: option.split)
qed

lemma detectRemoved_append:
  "detectRemoved ts prev cur acc = acc @ detectRemoved ts prev cur []"
proof (induction prev arbitrary: acc)
  case Nil
  show ?case by simp
next
  case (Cons p prev)
  show ?case
    using Cons.IH [of "acc @ [x]" for x] Cons.IH [of "[x]" for x] Cons.IH [of acc]
    by simp
qed

lemma detectChanges_split:
  "detectChanges ts prev cur [] = detectUpdated ts prev cur [] @ detectRemoved ts prev cur []"
  unfolding detectChanges_def by (rule detectRemoved_append)

lemma amount_of_Cons:
  "amount_of (x # xs) m = (if mint x = m then Some (amount x) else amount_of xs m)"
  by (simp add: amount_of_def)

lemma detectUpdated_char:
  "detectUpdated ts prev cur [] =
     map (\<lambda>c. \<lparr>ch_mint = mint c, oldBalance = balance_or_zero (amount_of prev (mint c)),
                newBalance = amount c, timestamp = ts, ch_decimals = decimals c\<rparr>)
       (filter (\<lambda>c. amount_of prev (mint c) \<noteq> Some (amount c)) cur)"
proof (induction cur)
  case Nil
  show ?case by simp
next
  case (Cons c cur)
  show ?case
    using Cons.IH detectUpdated_append [of ts prev cur "[x]" for x]
    by (auto simp: amount_of_def balance_or_zero_def split: option.split)
qed

lemma amount_of_Nil [simp]: "amount_of [] m = None"
  by (simp add: amount_of_def)

lemma ex_mint_iff: "(\<exists>t\<in>set xs. mint t = m) \<longleftrightarrow> amount_of xs m \<noteq> None"
  by (induction xs) (auto simp: amount_of_Cons)

lemma detectRemoved_char:
  "detectRemoved ts prev cur [] =
     map (\<lambda>p. \<lparr>ch_mint = mint p, oldBalance = amount p, newBalance = 0,
                timestamp = ts, ch_decimals = decimals p\<rparr>)
       (filter (\<lambda>p. amount_of cur (mint p) = None) prev)"
proof (induction prev)
  case Nil
  show ?case by simp
next
  case (Cons p prev)
  have "list_ex (\<lambda>t. mint t = mint p) cur \<longleftrightarrow> amount_of cur (mint p) \<noteq> None"
    using ex_mint_iff [of cur "mint p"] by (simp add: list_ex_iff)
  then show ?case
    using Cons.IH detectRemoved_append [of ts prev cur "[x]" for x]
    by simp
qed

lemma amount_of_distinct:
  "distinct (map mint xs) \<Longrightarrow> t \<in> set xs \<Longrightarrow> mint t = m \<Longrightarrow> amount_of xs m = Some (amount t)"
  by (induction xs) (auto simp: amount_of_Cons)

lemma amount_of_Some_mem:
  "amount_of xs m = Some a \<Longrightarrow> \<exists>t\<in>set xs. mint t = m \<and> amount t = a"
  by (induction xs) (auto simp: amount_of_Cons split: if_splits)

lemma updated_mints:
  assumes "distinct (map mint new)"
  shows "m \<in> set (map mint (filter (\<lambda>c. amount_of old (mint c) \<noteq> Some (amount c)) new)) \<longleftrightarrow>
         amount_of new m \<noteq> None \<and> amount_of old m \<noteq> amount_of new m"
proof
  assume "m \<in> set (map mint (filter (\<lambda>c. amount_of old (mint c) \<noteq> Some (amount c)) new))"
  then obtain c where c: "c \<in> set new" "mint c = m" "amount_of old m \<noteq> Some (amount c)"
    by auto
  from assms c(1,2) have "amount_of new m = Some (amount c)" by (rule amount_of_distinct)
  with c(3) show "amount_of new m \<noteq> None \<and> amount_of old m \<noteq> amount_of new m" by simp
next
  assume a: "amount_of new m \<noteq> None \<and> amount_of old m \<noteq> amount_of new m"
  then obtain b where b: "amount_of new m = Some b" by auto
  then obtain c where c: "c \<in> set new" "mint c = m" "amount c = b"
    using amount_of_Some_mem by blast
  with a b have "c \<in> set (filter (\<lambda>c. amount_of old (mint c) \<noteq> Some (amount c)) new)" by simp
  then have "mint c \<in> set (map mint (filter (\<lambda>c. amount_of old (mint c) \<noteq> Some (amount c)) new))"
    by (simp only: set_map) (rule imageI)
  with c(2) show "m \<in> set (map mint (filter (\<lambda>c. amount_of old (mint c) \<noteq> Some (amount c)) new))"
    by simp
qed

lemma removed_mints:
  "m \<in> set (map mint (filter (\<lambda>p. amount_of new (mint p) = None) old)) \<longleftrightarrow>
     amount_of old m \<noteq> None \<and> amount_of new m = None"
proof
  assume "m \<in> set (map mint (filter (\<lambda>p. amount_of new (mint p) = None) old))"
  then obtain p where p: "p \<in> set old" "mint p = m" "amount_of new m = None" by auto
  then show "amount_of old m \<noteq> None \<and> amount_of new m = None"
    using ex_mint_iff [of old m] by blast
next
  assume a: "amount_of old m \<noteq> None \<and> amount_of new m = None"
  then obtain p where p: "p \<in> set old" "mint p = m" using ex_mint_iff [of old m] by blast
  with a have "p \<in> set (filter (\<lambda>p. amount_of new (mint p) = None) old)" by simp
  then have "mint p \<in> set (map mint (filter (\<lambda>p. amount_of new (mint p) = None) old))"
    by (simp only: set_map) (rule imageI)
  with p(2) show "m \<in> set (map mint (filter (\<lambda>p. amount_of new (mint p) = None) old))" by simp
qed

text \<open>
  Claim C1. For two snapshots \<open>old\<close> and \<open>new\<close>, each with one entry per
  mint (the data model's snapshots), \<open>detectChanges\<close> started on the empty array
  yields at most one change per mint; a mint has a change exactly when the amount the
  two snapshots record for it differs, where a mint absent from a snapshot has no amount
  (so it appeared, disappeared or changed its amount); and every change carries as
  \<open>oldBalance\<close> the amount in \<open>old\<close>, or 0 when \<open>old\<close> lacks the mint, and
  as \<open>newBalance\<close> the amount in \<open>new\<close>, or 0 when \<open>new\<close> lacks it. Amounts
  are compared as integers.
\<close>

theorem detectChanges_exact:
  assumes dold: "distinct (map mint old)" and dnew: "distinct (map mint new)"
  shows "distinct (map ch_mint (detectChanges ts old new [])) \<and>
         (\<forall>m. m \<in> set (map ch_mint (detectChanges ts old new [])) \<longleftrightarrow>
                amount_of old m \<noteq> amount_of new m) \<and>
         (\<forall>c \<in> set (detectChanges ts old new []).
                oldBalance c = balance_or_zero (amount_of old (ch_mint c)) \<and>
                newBalance c = balance_or_zero (amount_of new (ch_mint c)))"
proof (intro conjI allI ballI)
  let ?U = "filter (\<lambda>c. amount_of old (mint c) \<noteq> Some (amount c)) new"
  let ?R = "filter (\<lambda>p. amount_of new (mint p) = None) old"
  have mU: "map ch_mint (detectUpdated ts old new []) = map mint ?U"
    by (simp add: detectUpdated_char o_def)
  have mR: "map ch_mint (detectRemoved ts old new []) = map mint ?R"
    by (simp add: detectRemoved_char o_def)
  have mints: "map ch_mint (detectChanges ts old new []) = map mint ?U @ map mint ?R"
    by (simp only: detectChanges_split map_append mU mR)
  have dU: "distinct (map mint ?U)" using dnew by (rule distinct_map_filter)
  have dR: "distinct (map mint ?R)" using dold by (rule distinct_map_filter)
  have disj: "set (map mint ?U) \<inter> set (map mint ?R) = {}"
    using updated_mints [OF dnew, of _ old] removed_mints [of _ new old] by blast
  show "distinct (map ch_mint (detectChanges ts old new []))"
    using dU dR disj by (simp only: mints distinct_append simp_thms)
  show "m \<in> set (map ch_mint (detectChanges ts old new [])) \<longleftrightarrow> amount_of old m \<noteq> amount_of new m" for m
    using updated_mints [OF dnew, of m old] removed_mints [of m new old]
    by (simp only: mints set_append Un_iff) (cases "amount_of new m"; cases "amount_of old m"; simp)
  show "oldBalance c = balance_or_zero (amount_of old (ch_mint c))"
    if "c \<in> set (detectChanges ts old new [])" for c
    using that amount_of_distinct [OF dold]
    by (auto simp: detectChanges_split detectUpdated_char detectRemoved_char balance_or_zero_def)
  show "newBalance c = balance_or_zero (amount_of new (ch_mint c))"
    if "c \<in> set (detectChanges ts old new [])" for c
    using that amount_of_distinct [OF dnew]
    by (auto simp: detectChanges_split detectUpdated_char detectRemoved_char balance_or_zero_def)
qed

theorem detectChanges_exact_witness:
  "distinct (map mint [\<lparr>mint = ''X'', amount = 1000, decimals = 6\<rparr>,
                       \<lparr>mint = ''Y'', amount = 5, decimals = 0\<rparr>,
                       \<lparr>mint = ''Z'', amount = 7, decimals = 2\<rparr>]) \<and>
   distinct (map mint [\<lparr>mint = ''X'', amount = 1500, decimals = 6\<rparr>,
                       \<lparr>mint = ''Z'', amount = 7, decimals = 2\<rparr>,
                       \<lparr>mint = ''W'', amount = 3, decimals = 0\<rparr>]) \<and>
   detectChanges 42
     [\<lparr>mint = ''X'', amount = 1000, decimals = 6\<rparr>,
      \<lparr>mint = ''Y'', amount = 5, decimals = 0\<rparr>,
      \<lparr>mint = ''Z'', amount = 7, decimals = 2\<rparr>]
     [\<lparr>mint = ''X'', amount = 1500, decimals = 6\<rparr>,
      \<lparr>mint = ''Z'', amount = 7, decimals = 2\<rparr>,
      \<lparr>mint = ''W'', amount = 3, decimals = 0\<rparr>] []
   = [\<lparr>ch_mint = ''X'', oldBalance = 1000, newBalance = 1500, timestamp = 42, ch_decimals = 6\<rparr>,
      \<lparr>ch_mint = ''W'', oldBalance = 0, newBalance = 3, timestamp = 42, ch_decimals = 0\<rparr>,
      \<lparr>ch_mint = ''Y'', oldBalance = 5, newBalance = 0, timestamp = 42, ch_decimals = 0\<rparr>] \<and>
   distinct (map ch_mint (detectChanges 42
     [\<lparr>mint = ''X'', amount = 1000, decimals = 6\<rparr>,
      \<lparr>mint = ''Y'', amount = 5, decimals = 0\<rparr>,
      \<lparr>mint = ''Z'', amount = 7, decimals = 2\<rparr>]
     [\<lparr>mint = ''X'', amount = 1500, decimals = 6\<rparr>,
      \<lparr>mint = ''Z'', amount = 7, decimals = 2\<rparr>,
      \<lparr>mint = ''W'', amount = 3, decimals = 0\<rparr>] []))"
proof -
  let ?old = "[\<lparr>mint = ''X'', amount = 1000, decimals = 6\<rparr>,
               \<lparr>mint = ''Y'', amount = 5, decimals = 0\<rparr>,
               \<lparr>mint = ''Z'', amount = 7, decimals = 2\<rparr>]"
  let ?new = "[\<lparr>mint = ''X'', amount = 1500, decimals = 6\<rparr>,
               \<lparr>mint = ''Z'', amount = 7, decimals = 2\<rparr>,
               \<lparr>mint = ''W'', amount = 3, decimals = 0\<rparr>]"
  have h1: "distinct (map mint ?old)" by simp
  have h2: "distinct (map mint ?new)" by simp
  have run: "detectChanges 42 ?old ?new [] =
     [\<lparr>ch_mint = ''X'', oldBalance = 1000, newBalance = 1500, timestamp = 42, ch_decimals = 6\<rparr>,
      \<lparr>ch_mint = ''W'', oldBalance = 0, newBalance = 3, timestamp = 42, ch_decimals = 0\<rparr>,
      \<lparr>ch_mint = ''Y'', oldBalance = 5, newBalance = 0, timestamp = 42, ch_decimals = 0\<rparr>]"
    by (simp add: detectChanges_def)
  from detectChanges_exact [OF h1 h2, of 42]
  have "distinct (map ch_mint (detectChanges 42 ?old ?new []))" by (rule conjunct1)
  with h1 h2 run show ?thesis by (intro conjI)
qed

section \<open>Properties of the refresh\<close>

lemma getTokenAccounts_fields:
  "holdingsCache (snd (getTokenAccounts w a st)) = holdingsCache st"
  "connection (snd (getTokenAccounts w a st)) = connection st"
  "subscriptions (snd (getTokenAccounts w a st)) = subscriptions st"
  "eventHandlers (snd (getTokenAccounts w a st)) = eventHandlers st"
  "updateCount (snd (getTokenAccounts w a st)) = updateCount st"
  "errorCount (snd (getTokenAccounts w a st)) = errorCount st"
  "isPaused (snd (getTokenAccounts w a st)) = isPaused st"
  "delivered (snd (getTokenAccounts w a st)) = delivered st"
  "updateLatencies (snd (getTokenAccounts w a st)) = updateLatencies st"
  by (simp_all add: getTokenAccounts_def emit_def split: sum.split)

lemma updateWalletHoldings_eq:
  "updateWalletHoldings w a st =
     (Inr (case map_of (holdingsCache st) a of
             Some previous \<Rightarrow> detectChanges (now w) (tokens previous) (readOrEmpty w a) []
           | None \<Rightarrow> map (newTokenChange (now w)) (readOrEmpty w a)),
      (snd (getTokenAccounts w a st))
        \<lparr>holdingsCache := AList.update a (freshHoldings w a) (holdingsCache st)\<rparr>)"
  by (cases "getParsedTokenAccountsByOwner w a")
    (simp_all add: updateWalletHoldings_def getTokenAccounts_def readOrEmpty_def freshHoldings_def emit_def Let_def split: option.split)

lemma updateWalletHoldings_fields:
  "holdingsCache (snd (updateWalletHoldings w a st)) = AList.update a (freshHoldings w a) (holdingsCache st)"
  "connection (snd (updateWalletHoldings w a st)) = connection st"
  "subscriptions (snd (updateWalletHoldings w a st)) = subscriptions st"
  "eventHandlers (snd (updateWalletHoldings w a st)) = eventHandlers st"
  "updateCount (snd (updateWalletHoldings w a st)) = updateCount st"
  "errorCount (snd (updateWalletHoldings w a st)) = errorCount st"
  "isPaused (snd (updateWalletHoldings w a st)) = isPaused st"
  "delivered (snd (updateWalletHoldings w a st)) = delivered st"
  "updateLatencies (snd (updateWalletHoldings w a st)) = updateLatencies st"
  by (simp_all add: updateWalletHoldings_eq getTokenAccounts_fields)

text \<open>
  Claim C2. When the ledger read inside \<open>updateWalletHoldings\<close> fails, for any
  address and any state, the refresh still returns normally (\<open>Inr\<close>): one \<open>error\<close>
  event is emitted, the read counts as the empty balance set, the change list is the diff
  of the previous snapshot against the empty set (empty when there is no previous
  snapshot), and the cached snapshot is replaced by the empty one.
\<close>

theorem refresh_absorbs_read_failure:
  assumes "getParsedTokenAccountsByOwner w a = Inl e"
  shows "updateWalletHoldings w a st =
     (Inr (case map_of (holdingsCache st) a of
             Some previous \<Rightarrow> detectChanges (now w) (tokens previous) [] []
           | None \<Rightarrow> []),
      st\<lparr>emitted := emitted st @ [EvError (''Error fetching token accounts for ''
                                             @ formatWalletName w a @ '': '' @ error_text e)],
         holdingsCache := AList.update a \<lparr>address = a, tokens = [], lastUpdated = now w\<rparr>
                            (holdingsCache st)\<rparr>)"
  using assms
  by (simp add: updateWalletHoldings_def getTokenAccounts_def emit_def split: option.split)

theorem refresh_absorbs_read_failure_witness:
  "getParsedTokenAccountsByOwner outageWorld ''A'' = Inl (LedgerError ''timeout'') \<and>
   updateWalletHoldings outageWorld ''A'' subscribedTracker =
     (Inr [\<lparr>ch_mint = ''X'', oldBalance = 1000, newBalance = 0, timestamp = 2000000,
            ch_decimals = 6\<rparr>],
      subscribedTracker
        \<lparr>emitted := [EvSubscribed ''A'', EvError ''Error fetching token accounts for A: timeout''],
         holdingsCache := [(''A'', \<lparr>address = ''A'', tokens = [], lastUpdated = 2000000\<rparr>)]\<rparr>)"
proof -
  have h: "getParsedTokenAccountsByOwner outageWorld ''A'' = Inl (LedgerError ''timeout'')"
    by (simp add: outageWorld_def exampleWorld_def)
  show ?thesis
    using h refresh_absorbs_read_failure [OF h, of subscribedTracker]
    by (simp add: subscribedTracker_def outageWorld_def exampleWorld_def detectChanges_def)
qed

text \<open>
  Claim C7, as stated, fails: after wallet A is unsubscribed it has no callback set and
  no cached snapshot, and a refresh for A writes a cache entry all the same.
\<close>

theorem refresh_writes_untracked_counterexample:
  "map_of (eventHandlers (step exampleWorld (Unsubscribe ''A'') subscribedTracker)) ''A'' = None \<and>
   map_of (holdingsCache (step exampleWorld (Unsubscribe ''A'') subscribedTracker)) ''A'' = None \<and>
   map_of (holdingsCache (step exampleWorld (Refresh ''A'')
             (step exampleWorld (Unsubscribe ''A'') subscribedTracker))) ''A''
     = Some \<lparr>address = ''A'', tokens = [\<lparr>mint = ''X'', amount = 1000, decimals = 6\<rparr>],
             lastUpdated = 1000000\<rparr>"
  by (simp add: removeSubscription_def removeAccountChangeListener_def subscribedTracker_def
        exampleWorld_def emit_def updateWalletHoldings_def getTokenAccounts_def)

text \<open>
  Claim C7, amended. \<open>updateWalletHoldings\<close> writes the cache entry of its address
  unconditionally: after it, the cache holds the snapshot just read (the empty one when
  the read failed) for the address, whether or not the address has a registered callback
  set, and the callback sets are as before. The source has no still-tracked guard.
\<close>

theorem refresh_always_writes:
  "map_of (holdingsCache (snd (updateWalletHoldings w a st))) a =
     Some \<lparr>address = a, tokens = readOrEmpty w a, lastUpdated = now w\<rparr> \<and>
   eventHandlers (snd (updateWalletHoldings w a st)) = eventHandlers st"
  by (simp add: updateWalletHoldings_fields update_conv' freshHoldings_def)

text \<open>
  Claim C5, as stated, fails: subscribing wallet A, with no cached snapshot and the
  ledger holding 1000 of mint X, succeeds, emits only \<open>subscribed\<close> and invokes no
  callback: no change batch is emitted.
\<close>

theorem subscribe_baseline_counterexample:
  "map_of (holdingsCache freshTracker) ''A'' = None \<and>
   getParsedTokenAccountsByOwner exampleWorld ''A'' = Inr [\<lparr>mint = ''X'', amount = 1000, decimals = 6\<rparr>] \<and>
   fst (setupWebSocketSubscription exampleWorld ''A'' 1 freshTracker) = Inr () \<and>
   emitted (snd (setupWebSocketSubscription exampleWorld ''A'' 1 freshTracker)) = [EvSubscribed ''A''] \<and>
   delivered (snd (setupWebSocketSubscription exampleWorld ''A'' 1 freshTracker)) = []"
  by (simp add: setupWebSocketSubscription_def exampleWorld_def freshTracker_def
      onAccountChange_def updateWalletHoldings_def getTokenAccounts_def emit_def newTokenChange_def)

text \<open>
  Claim C5, amended. Subscribing a valid address that has no watch and no cached
  snapshot, when the watch opens and the ledger returns the held tokens, performs one
  initial refresh; that refresh computes a change list reporting every held token with
  \<open>oldBalance = 0\<close> and \<open>newBalance\<close> the held amount, and stores the snapshot.
  The subscribe discards the list: it emits \<open>subscribed\<close> and nothing else, and no
  callback is invoked.
\<close>

theorem subscribe_baseline_discarded:
  assumes "valid w a" and "map_of (subscriptions st) a = None"
    and "map_of (holdingsCache st) a = None" and "onAccountChange_error w a = None"
    and "getParsedTokenAccountsByOwner w a = Inr held"
  shows "\<exists>st2. map_of (holdingsCache st2) a = None \<and>
           fst (updateWalletHoldings w a st2) =
             Inr (map (\<lambda>t. \<lparr>ch_mint = mint t, oldBalance = 0, newBalance = amount t,
                             timestamp = now w, ch_decimals = decimals t\<rparr>) held) \<and>
           setupWebSocketSubscription w a cb st =
             (Inr (), emit (EvSubscribed a) (snd (updateWalletHoldings w a st2))) \<and>
           emitted (snd (setupWebSocketSubscription w a cb st)) = emitted st @ [EvSubscribed a] \<and>
           delivered (snd (setupWebSocketSubscription w a cb st)) = delivered st \<and>
           map_of (holdingsCache (snd (setupWebSocketSubscription w a cb st))) a =
             Some \<lparr>address = a, tokens = held, lastUpdated = now w\<rparr>"
proof -
  let ?st2 = "st\<lparr>eventHandlers := AList.update a [cb] (eventHandlers st),
                 connection := (connection st)\<lparr>nextId := nextId (connection st) + 1,
                    listeners := listeners (connection st) @ [(nextId (connection st), a)]\<rparr>,
                 subscriptions := AList.update a (nextId (connection st)) (subscriptions st)\<rparr>"
  have c: "map_of (holdingsCache ?st2) a = None" using assms(3) by simp
  have r: "fst (updateWalletHoldings w a ?st2) =
             Inr (map (\<lambda>t. \<lparr>ch_mint = mint t, oldBalance = 0, newBalance = amount t,
                             timestamp = now w, ch_decimals = decimals t\<rparr>) held)"
    using assms(3,5) by (simp add: updateWalletHoldings_eq readOrEmpty_def newTokenChange_def)
  have s: "setupWebSocketSubscription w a cb st =
             (Inr (), emit (EvSubscribed a) (snd (updateWalletHoldings w a ?st2)))"
    using assms(1,2,4)
    by (simp add: setupWebSocketSubscription_def onAccountChange_def updateWalletHoldings_eq)
  have e: "emitted (snd (setupWebSocketSubscription w a cb st)) = emitted st @ [EvSubscribed a]"
    using assms(5) by (simp add: s updateWalletHoldings_eq getTokenAccounts_def emit_def)
  have d: "delivered (snd (setupWebSocketSubscription w a cb st)) = delivered st"
    by (simp add: s updateWalletHoldings_fields emit_def)
  have h: "map_of (holdingsCache (snd (setupWebSocketSubscription w a cb st))) a =
             Some \<lparr>address = a, tokens = held, lastUpdated = now w\<rparr>"
    using assms(5)
    by (simp add: s updateWalletHoldings_fields emit_def update_conv' freshHoldings_def readOrEmpty_def)
  from c r s e d h show ?thesis by blast
qed

theorem subscribe_baseline_discarded_witness:
  "valid exampleWorld ''A'' \<and> map_of (subscriptions freshTracker) ''A'' = None \<and>
   map_of (holdingsCache freshTracker) ''A'' = None \<and>
   onAccountChange_error exampleWorld ''A'' = None \<and>
   getParsedTokenAccountsByOwner exampleWorld ''A'' = Inr [\<lparr>mint = ''X'', amount = 1000, decimals = 6\<rparr>] \<and>
   (\<exists>st2. fst (updateWalletHoldings exampleWorld ''A'' st2) =
             Inr [\<lparr>ch_mint = ''X'', oldBalance = 0, newBalance = 1000,
                   timestamp = 1000000, ch_decimals = 6\<rparr>] \<and>
           setupWebSocketSubscription exampleWorld ''A'' 1 freshTracker =
             (Inr (), emit (EvSubscribed ''A'') (snd (updateWalletHoldings exampleWorld ''A'' st2)))) \<and>
   emitted (snd (setupWebSocketSubscription exampleWorld ''A'' 1 freshTracker)) = [EvSubscribed ''A'']"
proof -
  have h1: "valid exampleWorld ''A''" by (simp add: exampleWorld_def)
  have h2: "map_of (subscriptions freshTracker) ''A'' = None" by (simp add: freshTracker_def)
  have h3: "map_of (holdingsCache freshTracker) ''A'' = None" by (simp add: freshTracker_def)
  have h4: "onAccountChange_error exampleWorld ''A'' = None" by (simp add: exampleWorld_def)
  have h5: "getParsedTokenAccountsByOwner exampleWorld ''A'' =
              Inr [\<lparr>mint = ''X'', amount = 1000, decimals = 6\<rparr>]"
    by (simp add: exampleWorld_def)
  have n: "now exampleWorld = 1000000" by (simp add: exampleWorld_def)
  have e: "emitted freshTracker = []" by (simp add: freshTracker_def)
  from subscribe_baseline_discarded [OF h1 h2 h3 h4 h5, of 1]
  show ?thesis using h1 h2 h3 h4 h5 by (simp add: n e) blast
qed

lemma invokeHandlers_counts:
  "updateCount (snd (invokeHandlers w hs changes st)) = updateCount st \<and>
   errorCount (snd (invokeHandlers w hs changes st)) = errorCount st \<and>
   emitted (snd (invokeHandlers w hs changes st)) = emitted st"
  by (induction hs arbitrary: st) (simp_all add: Let_def split: option.split)

lemma invokeHandlers_frame:
  "connection (snd (invokeHandlers w hs changes st)) = connection st \<and>
   subscriptions (snd (invokeHandlers w hs changes st)) = subscriptions st \<and>
   eventHandlers (snd (invokeHandlers w hs changes st)) = eventHandlers st \<and>
   holdingsCache (snd (invokeHandlers w hs changes st)) = holdingsCache st \<and>
   isPaused (snd (invokeHandlers w hs changes st)) = isPaused st"
  by (induction hs arbitrary: st) (simp_all add: Let_def split: option.split)

lemma invokeHandlers_all_return:
  "\<forall>h\<in>set hs. handler_error w h = None \<Longrightarrow>
   invokeHandlers w hs changes st =
     (Inr (), st\<lparr>delivered := delivered st @ map (\<lambda>h. (h, changes)) hs\<rparr>)"
  by (induction hs arbitrary: st) simp_all

lemma invokeHandlers_some_throws:
  "\<exists>h\<in>set hs. handler_error w h \<noteq> None \<Longrightarrow> \<exists>e. fst (invokeHandlers w hs changes st) = Inl e"
  by (induction hs arbitrary: st) (auto simp: Let_def split: option.split)

text \<open>
  Claim C6, as stated, fails: a notification whose refresh cannot reach the ledger
  increments the update counter and leaves the error counter at 0.
\<close>

theorem notification_counters_counterexample:
  "getParsedTokenAccountsByOwner outageWorld ''A'' = Inl (LedgerError ''timeout'') \<and>
   errorCount subscribedTracker = 0 \<and>
   errorCount (accountChangeHandler outageWorld 2000050 ''A'' subscribedTracker) = 0 \<and>
   updateCount (accountChangeHandler outageWorld 2000050 ''A'' subscribedTracker) = 1"
  by (simp add: accountChangeHandler_def updateWalletHoldings_def getTokenAccounts_def
        outageWorld_def exampleWorld_def subscribedTracker_def emit_def detectChanges_def
        handlersOf_def Let_def)

text \<open>
  Claim C6, amended. A notification all of whose callbacks return increments the update
  counter by one and leaves the error counter unchanged, also when its refresh failed to
  reach the ledger. When the change list is not empty and a callback throws, the error
  counter is incremented by one and the update counter is unchanged.
\<close>

theorem notification_counters:
  "((\<forall>h\<in>set (handlersOf st a). handler_error w h = None) \<longrightarrow>
      updateCount (accountChangeHandler w finish a st) = updateCount st + 1 \<and>
      errorCount (accountChangeHandler w finish a st) = errorCount st) \<and>
   ((\<exists>h\<in>set (handlersOf st a). handler_error w h \<noteq> None) \<and>
    fst (updateWalletHoldings w a st) \<noteq> Inr [] \<longrightarrow>
      updateCount (accountChangeHandler w finish a st) = updateCount st \<and>
      errorCount (accountChangeHandler w finish a st) = errorCount st + 1)"
proof (intro conjI impI)
  obtain changes st1 where u: "updateWalletHoldings w a st = (Inr changes, st1)"
    by (simp add: updateWalletHoldings_eq)
  have st1: "updateCount st1 = updateCount st" "errorCount st1 = errorCount st"
    "eventHandlers st1 = eventHandlers st"
    using updateWalletHoldings_fields [of w a st] by (simp_all add: u)
  let ?st2 = "st1\<lparr>updateLatencies := updateLatencies st1 @ [finish - now w]\<rparr>"
  have hs: "handlersOf ?st2 a = handlersOf st a" by (simp add: handlersOf_def st1)
  {
    assume ok: "\<forall>h\<in>set (handlersOf st a). handler_error w h = None"
    have "updateCount (accountChangeHandler w finish a st) = updateCount st + 1 \<and>
          errorCount (accountChangeHandler w finish a st) = errorCount st"
      using invokeHandlers_all_return [OF ok, of changes ?st2]
      by (simp add: accountChangeHandler_def u hs Let_def emit_def st1)
    then show "updateCount (accountChangeHandler w finish a st) = updateCount st + 1"
      and "errorCount (accountChangeHandler w finish a st) = errorCount st" by simp_all
  }
  {
    assume bad: "(\<exists>h\<in>set (handlersOf st a). handler_error w h \<noteq> None) \<and>
                 fst (updateWalletHoldings w a st) \<noteq> Inr []"
    then have ne: "changes \<noteq> []" by (simp add: u)
    from bad obtain e where e: "fst (invokeHandlers w (handlersOf st a) changes ?st2) = Inl e"
      using invokeHandlers_some_throws by blast
    obtain st3 where i: "invokeHandlers w (handlersOf st a) changes ?st2 = (Inl e, st3)"
      using e by (cases "invokeHandlers w (handlersOf st a) changes ?st2") simp
    have c3: "updateCount st3 = updateCount st" "errorCount st3 = errorCount st"
      using invokeHandlers_counts [of w "handlersOf st a" changes ?st2] by (simp_all add: i st1)
    have "updateCount (accountChangeHandler w finish a st) = updateCount st \<and>
          errorCount (accountChangeHandler w finish a st) = errorCount st + 1"
      using ne by (simp add: accountChangeHandler_def u hs i Let_def processingFailed_def emit_def c3)
    then show "updateCount (accountChangeHandler w finish a st) = updateCount st"
      and "errorCount (accountChangeHandler w finish a st) = errorCount st + 1" by simp_all
  }
qed

theorem notification_counters_witness:
  "handlersOf subscribedTracker ''A'' = [1] \<and> handler_error outageWorld 1 = None \<and>
   updateCount (accountChangeHandler outageWorld 2000050 ''A'' subscribedTracker) = 1 \<and>
   errorCount (accountChangeHandler outageWorld 2000050 ''A'' subscribedTracker) = 0 \<and>
   handler_error throwingWorld 1 \<noteq> None \<and>
   fst (updateWalletHoldings throwingWorld ''A'' subscribedTracker) \<noteq> Inr [] \<and>
   updateCount (accountChangeHandler throwingWorld 2000050 ''A'' subscribedTracker) = 0 \<and>
   errorCount (accountChangeHandler throwingWorld 2000050 ''A'' subscribedTracker) = 1"
proof -
  have hs: "handlersOf subscribedTracker ''A'' = [1]"
    by (simp add: handlersOf_def subscribedTracker_def)
  have h1: "\<forall>h\<in>set (handlersOf subscribedTracker ''A''). handler_error outageWorld h = None"
    by (simp add: hs outageWorld_def exampleWorld_def)
  have h2: "\<exists>h\<in>set (handlersOf subscribedTracker ''A''). handler_error throwingWorld h \<noteq> None"
    by (simp add: hs throwingWorld_def emptiedWorld_def exampleWorld_def)
  have h3: "fst (updateWalletHoldings throwingWorld ''A'' subscribedTracker) \<noteq> Inr []"
    by (simp add: updateWalletHoldings_def getTokenAccounts_def throwingWorld_def emptiedWorld_def
          exampleWorld_def subscribedTracker_def detectChanges_def)
  have c: "updateCount subscribedTracker = 0" "errorCount subscribedTracker = 0"
    by (simp_all add: subscribedTracker_def)
  from notification_counters [of subscribedTracker "''A''" outageWorld 2000050]
       notification_counters [of subscribedTracker "''A''" throwingWorld 2000050]
       h1 h2 h3
  show ?thesis by (simp add: c hs)
qed

text \<open>
  Claim C8, as stated, fails: for the paused tracker, where wallet A has a callback set
  and a cached snapshot but no watch handle, \<open>removeSubscription\<close> changes nothing.
\<close>

theorem unsubscribe_paused_counterexample:
  "map_of (subscriptions pausedTracker) ''A'' = None \<and>
   map_of (eventHandlers pausedTracker) ''A'' = Some [1] \<and>
   removeSubscription exampleWorld ''A'' pausedTracker = (Inr (), pausedTracker) \<and>
   map_of (eventHandlers (snd (removeSubscription exampleWorld ''A'' pausedTracker))) ''A'' = Some [1] \<and>
   map_of (holdingsCache (snd (removeSubscription exampleWorld ''A'' pausedTracker))) ''A'' \<noteq> None"
  by (simp add: removeSubscription_def pausedTracker_def)

text \<open>
  Claim C8, amended. For an address without an entry in \<open>subscriptions\<close> (never
  tracked, or its watch cancelled by a pause) \<open>removeSubscription\<close> is a no-op: the
  state, with any retained callback set and cached snapshot, is unchanged. For an address
  with a watch handle other than 0 whose removal succeeds, it cancels the listener,
  removes the subscription entry, the callback set and the cached snapshot, and emits
  \<open>unsubscribed\<close>.
\<close>

theorem unsubscribe_effect:
  "(map_of (subscriptions st) a = None \<longrightarrow> removeSubscription w a st = (Inr (), st)) \<and>
   (map_of (subscriptions st) a = Some i \<and> i \<noteq> 0 \<and> removeListener_error w i = None \<longrightarrow>
      removeSubscription w a st =
        (Inr (),
         st\<lparr>connection := (connection st)\<lparr>listeners :=
                 filter (\<lambda>l. fst l \<noteq> i) (listeners (connection st))\<rparr>,
            subscriptions := AList.delete a (subscriptions st),
            eventHandlers := AList.delete a (eventHandlers st),
            holdingsCache := AList.delete a (holdingsCache st),
            emitted := emitted st @ [EvUnsubscribed a]\<rparr>) \<and>
      map_of (subscriptions (snd (removeSubscription w a st))) a = None \<and>
      map_of (eventHandlers (snd (removeSubscription w a st))) a = None \<and>
      map_of (holdingsCache (snd (removeSubscription w a st))) a = None)"
  by (simp add: removeSubscription_def removeAccountChangeListener_def emit_def delete_conv')

theorem unsubscribe_effect_witness:
  "map_of (subscriptions pausedTracker) ''A'' = None \<and>
   removeSubscription exampleWorld ''A'' pausedTracker = (Inr (), pausedTracker) \<and>
   map_of (subscriptions subscribedTracker) ''A'' = Some 1 \<and> (1::nat) \<noteq> 0 \<and>
   removeListener_error exampleWorld 1 = None \<and>
   removeSubscription exampleWorld ''A'' subscribedTracker =
     (Inr (),
      freshTracker\<lparr>connection := \<lparr>nextId = 2, listeners = []\<rparr>,
                   emitted := [EvSubscribed ''A'', EvUnsubscribed ''A'']\<rparr>)"
proof -
  have h1: "map_of (subscriptions pausedTracker) ''A'' = None" by (simp add: pausedTracker_def)
  have h2: "map_of (subscriptions subscribedTracker) ''A'' = Some 1"
    by (simp add: subscribedTracker_def)
  have h3: "removeListener_error exampleWorld 1 = None" by (simp add: exampleWorld_def)
  from unsubscribe_effect [of pausedTracker "''A''" exampleWorld 1]
       unsubscribe_effect [of subscribedTracker "''A''" exampleWorld 1] h1 h2 h3
  show ?thesis by (simp add: subscribedTracker_def freshTracker_def)
qed

lemma foldl_plus_sum_list: "foldl (+) (a::int) xs = a + sum_list xs"
  by (induction xs arbitrary: a) simp_all

text \<open>
  Claim C10. \<open>getMetrics\<close> reports as average latency 0 when no sample is recorded
  and otherwise the sum of the samples divided by their number, and as success rate 1
  when the update counter is 0 and otherwise (updates - errors) / updates.
\<close>

theorem metrics_formulas:
  "(updateLatencies st = [] \<longrightarrow> updateLatency (performance (getMetrics st)) = 0) \<and>
   (updateLatencies st \<noteq> [] \<longrightarrow>
      updateLatency (performance (getMetrics st)) =
        real_of_int (sum_list (updateLatencies st)) / real (length (updateLatencies st))) \<and>
   (updateCount st = 0 \<longrightarrow> successRate (performance (getMetrics st)) = 1) \<and>
   (updateCount st > 0 \<longrightarrow>
      successRate (performance (getMetrics st)) =
        (real (updateCount st) - real (errorCount st)) / real (updateCount st))"
  by (simp add: getMetrics_def foldl_plus_sum_list)

theorem metrics_formulas_witness:
  "updateLatencies freshTracker = [] \<and> updateCount freshTracker = 0 \<and>
   updateLatency (performance (getMetrics freshTracker)) = 0 \<and>
   successRate (performance (getMetrics freshTracker)) = 1 \<and>
   updateLatencies (freshTracker\<lparr>updateLatencies := [10, 20, 45], updateCount := 4, errorCount := 1\<rparr>) \<noteq> [] \<and>
   updateCount (freshTracker\<lparr>updateLatencies := [10, 20, 45], updateCount := 4, errorCount := 1\<rparr>) > 0 \<and>
   updateLatency (performance (getMetrics
     (freshTracker\<lparr>updateLatencies := [10, 20, 45], updateCount := 4, errorCount := 1\<rparr>))) = 25 \<and>
   successRate (performance (getMetrics
     (freshTracker\<lparr>updateLatencies := [10, 20, 45], updateCount := 4, errorCount := 1\<rparr>))) = 3 / 4"
  using metrics_formulas [of freshTracker]
        metrics_formulas [of "freshTracker\<lparr>updateLatencies := [10, 20, 45], updateCount := 4, errorCount := 1\<rparr>"]
  by (simp add: freshTracker_def)

lemma latestUpdate_Some:
  "latestUpdate hs (Some t) = Some (Max (insert t (set (map lastUpdated hs))))"
proof (induction hs arbitrary: t)
  case Nil
  show ?case by simp
next
  case (Cons h hs)
  let ?S = "set (map lastUpdated hs)"
  let ?u = "lastUpdated h"
  have ins: "Max (insert x (insert y ?S)) = max x (Max (insert y ?S))" for x y
    by (rule Max_insert) simp_all
  have ge: "y \<le> Max (insert y ?S)" for y
    by (rule Max_ge) simp_all
  show ?case
  proof (cases "?u > t")
    case True
    have "t \<le> Max (insert ?u ?S)" using True ge [of ?u] by linarith
    then have "max t (Max (insert ?u ?S)) = Max (insert ?u ?S)" by (rule max_absorb2)
    then have "Max (insert t (insert ?u ?S)) = Max (insert ?u ?S)" by (simp only: ins)
    with True Cons.IH [of ?u] show ?thesis by simp
  next
    case False
    have "?u \<le> Max (insert t ?S)" using False ge [of t] by linarith
    then have "max ?u (Max (insert t ?S)) = Max (insert t ?S)" by (rule max_absorb2)
    then have "Max (insert ?u (insert t ?S)) = Max (insert t ?S)" by (simp only: ins)
    then have "Max (insert t (insert ?u ?S)) = Max (insert t ?S)"
      by (simp only: insert_commute [of t ?u])
    with False Cons.IH [of t] show ?thesis by simp
  qed
qed

lemma latestUpdate_None:
  "latestUpdate hs None = (if hs = [] then None else Some (Max (set (map lastUpdated hs))))"
  by (cases hs) (simp_all add: latestUpdate_Some)

lemma classify_cases:
  "classify errs = (if length errs = 0 then healthy else if length errs = 1 then degraded else unhealthy)"
  by (cases errs) (auto simp: classify_def)

text \<open>
  Claim C3, as stated, fails: with the probe failing and the only cached snapshot older
  than five minutes, \<open>checkHealth\<close> returns the connection error alone and the
  status \<open>degraded\<close>.
\<close>

theorem health_probe_failure_counterexample:
  "getSlot_error outageWorld = Some (LedgerError ''timeout'') \<and>
   map (lastUpdated \<circ> snd) (holdingsCache subscribedTracker) = [1000000] \<and>
   now outageWorld - 1000000 > 5 * 60 * 1000 \<and>
   errors (details (checkHealth outageWorld subscribedTracker)) = [''Connection error: timeout''] \<and>
   status (checkHealth outageWorld subscribedTracker) = degraded"
  by (simp add: checkHealth_def outageWorld_def exampleWorld_def subscribedTracker_def classify_def)

text \<open>
  Claim C3, amended. When the probe fails, \<open>checkHealth\<close> returns exactly the
  connection error and the status \<open>degraded\<close>; the staleness and subscription checks are
  not made. When the probe succeeds, it appends one staleness error if the most recent
  cached \<open>lastUpdated\<close> is more than five minutes before now, and one mismatch error if
  the number of watch handles differs from the number of callback sets, each
  independently of the other. The status is \<open>healthy\<close> for 0 errors, \<open>degraded\<close> for
  1 and \<open>unhealthy\<close> for 2 or more.
\<close>

theorem health_classification:
  "(getSlot_error w = Some e \<longrightarrow>
      errors (details (checkHealth w st)) = [''Connection error: '' @ error_text e] \<and>
      status (checkHealth w st) = degraded) \<and>
   (getSlot_error w = None \<longrightarrow>
      length (errors (details (checkHealth w st))) =
        (if holdingsCache st \<noteq> [] \<and>
            now w - Max (set (map (lastUpdated \<circ> snd) (holdingsCache st))) > 5 * 60 * 1000
         then 1 else 0) +
        (if length (subscriptions st) \<noteq> length (eventHandlers st) then 1 else 0)) \<and>
   status (checkHealth w st) =
     (if length (errors (details (checkHealth w st))) = 0 then healthy
      else if length (errors (details (checkHealth w st))) = 1 then degraded
      else unhealthy)"
proof (intro conjI impI)
  assume "getSlot_error w = Some e"
  then show "errors (details (checkHealth w st)) = [''Connection error: '' @ error_text e]"
    and "status (checkHealth w st) = degraded"
    by (simp_all add: checkHealth_def classify_def)
next
  assume ok: "getSlot_error w = None"
  have s: "length (staleErrors w (latestUpdate (map snd (holdingsCache st)) None)) =
        (if holdingsCache st \<noteq> [] \<and>
            now w - Max (set (map (lastUpdated \<circ> snd) (holdingsCache st))) > 5 * 60 * 1000
         then 1 else 0)"
    by (simp add: staleErrors_def latestUpdate_None image_image)
  have m: "length (mismatchErrors st) =
        (if length (subscriptions st) \<noteq> length (eventHandlers st) then 1 else 0)"
    by (simp add: mismatchErrors_def Let_def)
  show "length (errors (details (checkHealth w st))) =
        (if holdingsCache st \<noteq> [] \<and>
            now w - Max (set (map (lastUpdated \<circ> snd) (holdingsCache st))) > 5 * 60 * 1000
         then 1 else 0) +
        (if length (subscriptions st) \<noteq> length (eventHandlers st) then 1 else 0)"
    using ok s m by (simp add: checkHealth_def Let_def)
next
  show "status (checkHealth w st) =
     (if length (errors (details (checkHealth w st))) = 0 then healthy
      else if length (errors (details (checkHealth w st))) = 1 then degraded
      else unhealthy)"
    by (simp add: checkHealth_def classify_cases Let_def split: prod.split)
qed

theorem health_classification_witness:
  "getSlot_error outageWorld = Some (LedgerError ''timeout'') \<and>
   errors (details (checkHealth outageWorld subscribedTracker)) = [''Connection error: timeout''] \<and>
   status (checkHealth outageWorld subscribedTracker) = degraded \<and>
   getSlot_error emptiedWorld = None \<and>
   length (errors (details (checkHealth emptiedWorld subscribedTracker))) = 1 \<and>
   status (checkHealth emptiedWorld subscribedTracker) = degraded \<and>
   length (errors (details (checkHealth emptiedWorld pausedTracker))) = 2 \<and>
   status (checkHealth emptiedWorld pausedTracker) = unhealthy \<and>
   length (errors (details (checkHealth exampleWorld subscribedTracker))) = 0 \<and>
   status (checkHealth exampleWorld subscribedTracker) = healthy"
proof -
  have h1: "getSlot_error outageWorld = Some (LedgerError ''timeout'')"
    by (simp add: outageWorld_def exampleWorld_def)
  have h2: "getSlot_error emptiedWorld = None" "getSlot_error exampleWorld = None"
    by (simp_all add: emptiedWorld_def exampleWorld_def)
  have n: "now emptiedWorld = 2000000" "now exampleWorld = 1000000"
    by (simp_all add: emptiedWorld_def exampleWorld_def)
  have c: "holdingsCache subscribedTracker =
             [(''A'', \<lparr>address = ''A'', tokens = [\<lparr>mint = ''X'', amount = 1000, decimals = 6\<rparr>],
                       lastUpdated = 1000000\<rparr>)]"
    "holdingsCache pausedTracker = holdingsCache subscribedTracker"
    "length (subscriptions subscribedTracker) = 1" "length (eventHandlers subscribedTracker) = 1"
    "length (subscriptions pausedTracker) = 0" "length (eventHandlers pausedTracker) = 1"
    by (simp_all add: subscribedTracker_def pausedTracker_def)
  have a: "errors (details (checkHealth outageWorld subscribedTracker)) = [''Connection error: timeout'']"
    "status (checkHealth outageWorld subscribedTracker) = degraded"
    using health_classification [of outageWorld "LedgerError ''timeout''" subscribedTracker] h1
    by simp_all
  have b1: "length (errors (details (checkHealth emptiedWorld subscribedTracker))) = 1"
    using health_classification [of emptiedWorld e subscribedTracker for e] h2
    by (simp add: n c)
  have b2: "length (errors (details (checkHealth emptiedWorld pausedTracker))) = 2"
    using health_classification [of emptiedWorld e pausedTracker for e] h2
    by (simp add: n c)
  have b3: "length (errors (details (checkHealth exampleWorld subscribedTracker))) = 0"
    using health_classification [of exampleWorld e subscribedTracker for e] h2
    by (simp add: n c)
  have s1: "status (checkHealth emptiedWorld subscribedTracker) = degraded"
    using health_classification [of emptiedWorld e subscribedTracker for e] by (simp only: b1) simp
  have s2: "status (checkHealth emptiedWorld pausedTracker) = unhealthy"
    using health_classification [of emptiedWorld e pausedTracker for e] by (simp only: b2) simp
  have s3: "status (checkHealth exampleWorld subscribedTracker) = healthy"
    using health_classification [of exampleWorld e subscribedTracker for e] by (simp only: b3) simp
  from h1 h2 a b1 b2 b3 s1 s2 s3 show ?thesis by simp
qed

section \<open>Properties of the subscription manager\<close>

lemma consistent_iff:
  "consistent st \<longleftrightarrow>
     distinct (map fst (subscriptions st)) \<and>
     distinct (map fst (listeners (connection st))) \<and>
     (\<forall>l\<in>set (listeners (connection st)).
        fst l < nextId (connection st) \<and> map_of (subscriptions st) (snd l) = Some (fst l))"
  by (simp add: consistent_def list_all_iff)

lemma consistent_frame:
  "connection st' = connection st \<Longrightarrow> subscriptions st' = subscriptions st \<Longrightarrow>
   consistent st' = consistent st"
  by (simp only: consistent_def)

lemma consistent_open:
  assumes "consistent st" and "map_of (subscriptions st) a = None"
  shows "consistent
           (st\<lparr>connection := (connection st)\<lparr>nextId := nextId (connection st) + 1,
                   listeners := listeners (connection st) @ [(nextId (connection st), a)]\<rparr>,
               subscriptions := AList.update a (nextId (connection st)) (subscriptions st)\<rparr>)"
proof -
  from assms(1) have d: "distinct (map fst (subscriptions st))"
    and i: "distinct (map fst (listeners (connection st)))"
    and l: "\<And>l. l \<in> set (listeners (connection st)) \<Longrightarrow>
              fst l < nextId (connection st) \<and> map_of (subscriptions st) (snd l) = Some (fst l)"
    by (simp_all add: consistent_iff)
  have fresh: "nextId (connection st) \<notin> fst ` set (listeners (connection st))"
    using l by fastforce
  have other: "snd l \<noteq> a" if "l \<in> set (listeners (connection st))" for l
    using l [OF that] assms(2) by auto
  show ?thesis
    using d i fresh l other
    by (auto simp: consistent_iff distinct_update update_conv' less_Suc_eq)
qed

lemma consistent_close:
  assumes "consistent st" and "map_of (subscriptions st) a = Some i"
  shows "consistent
           (st\<lparr>connection := (connection st)\<lparr>listeners :=
                   filter (\<lambda>l. fst l \<noteq> i) (listeners (connection st))\<rparr>,
               subscriptions := AList.delete a (subscriptions st)\<rparr>)"
proof -
  from assms(1) have d: "distinct (map fst (subscriptions st))"
    and i: "distinct (map fst (listeners (connection st)))"
    and l: "\<And>l. l \<in> set (listeners (connection st)) \<Longrightarrow>
              fst l < nextId (connection st) \<and> map_of (subscriptions st) (snd l) = Some (fst l)"
    by (simp_all add: consistent_iff)
  have other: "snd l \<noteq> a" if "l \<in> set (listeners (connection st))" "fst l \<noteq> i" for l
    using l [OF that(1)] that(2) assms(2) by auto
  show ?thesis
    using d i l other
    by (auto simp: consistent_iff distinct_delete distinct_map_filter)
qed

lemma consistent_fewer_listeners:
  assumes "consistent st"
  shows "consistent (st\<lparr>connection := (connection st)\<lparr>listeners :=
                   filter P (listeners (connection st))\<rparr>\<rparr>)"
  using assms by (auto simp: consistent_iff distinct_map_filter)

lemma consistent_emit [simp]: "consistent (emit e st) = consistent st"
  by (rule consistent_frame) (simp_all add: emit_def)

lemma consistent_updateWalletHoldings [simp]:
  "consistent (snd (updateWalletHoldings w a st)) = consistent st"
  by (rule consistent_frame) (simp_all add: updateWalletHoldings_fields)

lemma consistent_cong:
  "connection st' = connection st \<Longrightarrow> subscriptions st' = subscriptions st \<Longrightarrow>
   consistent st \<Longrightarrow> consistent st'"
  by (simp only: consistent_def)

lemma setup_consistent:
  assumes "consistent st"
  shows "consistent (snd (setupWebSocketSubscription w a cb st))"
proof (cases "valid w a \<and> map_of (subscriptions st) a = None \<and> onAccountChange_error w a = None")
  case True
  let ?st1 = "st\<lparr>eventHandlers := AList.update a [cb] (eventHandlers st)\<rparr>"
  have c1: "consistent ?st1" using assms by (rule consistent_cong [rotated 2]) simp_all
  have "map_of (subscriptions ?st1) a = None" using True by simp
  from consistent_open [OF c1 this] show ?thesis
    by (rule consistent_cong [rotated 2])
       (use True in \<open>simp_all add: setupWebSocketSubscription_def onAccountChange_def
          updateWalletHoldings_eq getTokenAccounts_fields emit_def Let_def\<close>)
next
  case False
  from assms show ?thesis
    by (rule consistent_cong [rotated 2])
       (use False in \<open>auto simp: setupWebSocketSubscription_def onAccountChange_def emit_def
          Let_def split: option.splits\<close>)
qed

lemma removeSubscription_consistent:
  assumes "consistent st"
  shows "consistent (snd (removeSubscription w a st))"
proof (cases "\<exists>i. map_of (subscriptions st) a = Some i \<and> i \<noteq> 0 \<and> removeListener_error w i = None")
  case True
  then obtain i where i: "map_of (subscriptions st) a = Some i" "i \<noteq> 0"
    "removeListener_error w i = None" by blast
  from consistent_close [OF assms i(1)] show ?thesis
    by (rule consistent_cong [rotated 2])
       (use i in \<open>simp_all add: removeSubscription_def removeAccountChangeListener_def emit_def\<close>)
next
  case False
  from assms show ?thesis
    by (rule consistent_cong [rotated 2])
       (use False in \<open>auto simp: removeSubscription_def removeAccountChangeListener_def emit_def
          split: option.splits\<close>)
qed

lemma pauseLoop_consistent:
  assumes "consistent st" and "distinct (map fst es)" and "set es \<subseteq> set (subscriptions st)"
  shows "consistent (snd (pauseLoop w es st))"
  using assms
proof (induction es arbitrary: st)
  case Nil
  then show ?case by simp
next
  case (Cons e es)
  obtain a i where e: "e = (a, i)" by (cases e)
  show ?case
  proof (cases "removeListener_error w i")
    case (Some err)
    then show ?thesis using Cons.prems(1) by (simp add: e removeAccountChangeListener_def)
  next
    case None
    let ?st1 = "st\<lparr>connection := (connection st)\<lparr>listeners :=
                   filter (\<lambda>l. fst l \<noteq> i) (listeners (connection st))\<rparr>,
               subscriptions := AList.delete a (subscriptions st)\<rparr>"
    from Cons.prems have d: "distinct (map fst (subscriptions st))" by (simp add: consistent_iff)
    from Cons.prems(3) e have "(a, i) \<in> set (subscriptions st)" by simp
    with d have m: "map_of (subscriptions st) a = Some i" by simp
    have c1: "consistent ?st1" by (rule consistent_close [OF Cons.prems(1) m])
    have d1: "distinct (map fst es)" using Cons.prems(2) by simp
    have na: "a \<notin> fst ` set es" using Cons.prems(2) e by simp
    have s1: "set es \<subseteq> set (subscriptions ?st1)"
    proof
      fix x assume x: "x \<in> set es"
      then have "fst x \<in> fst ` set es" by (rule imageI)
      with na have "fst x \<noteq> a" by auto
      moreover from x Cons.prems(3) have "x \<in> set (subscriptions st)" by auto
      ultimately show "x \<in> set (subscriptions ?st1)"
        by (cases x) (auto simp: AList.delete_eq)
    qed
    from Cons.IH [OF c1 d1 s1] None show ?thesis
      by (simp add: e removeAccountChangeListener_def)
  qed
qed

lemma pauseTracking_consistent:
  assumes "consistent st"
  shows "consistent (snd (pauseTracking w st))"
proof -
  from assms have d: "distinct (map fst (subscriptions st))" by (simp add: consistent_iff)
  have "consistent (snd (pauseLoop w (subscriptions st) st))"
    by (rule pauseLoop_consistent [OF assms d]) simp
  then have "consistent (snd (pauseTracking w st)) \<or> snd (pauseTracking w st) = st"
    by (cases "pauseLoop w (subscriptions st) st"; cases "fst (pauseLoop w (subscriptions st) st)")
       (auto simp: pauseTracking_def emit_def elim: consistent_cong [rotated 2])
  with assms show ?thesis by auto
qed

lemma removeAll_listeners_snd:
  "snd (removeAll_listeners w es c) =
     c\<lparr>listeners :=
         filter (\<lambda>l. fst l \<notin> set (filter (\<lambda>i. removeListener_error w i = None) (map snd es)))
           (listeners c)\<rparr>"
proof (induction es arbitrary: c)
  case Nil
  show ?case by simp
next
  case (Cons e es)
  obtain a i where e: "e = (a, i)" by (cases e)
  show ?case
    by (cases "removeListener_error w i")
       (simp_all add: e Cons.IH removeAccountChangeListener_def conj_commute)
qed

lemma removeAll_listeners_None:
  "fst (removeAll_listeners w es c) = None \<Longrightarrow>
   list_all (\<lambda>e. removeListener_error w (snd e) = None) es"
proof (induction es arbitrary: c)
  case Nil
  show ?case by simp
next
  case (Cons e es)
  obtain a i where e: "e = (a, i)" by (cases e)
  from Cons.prems show ?case
    by (cases "removeListener_error w i")
       (auto simp: e removeAccountChangeListener_def dest: Cons.IH)
qed

lemma shutdown_consistent:
  assumes "consistent st"
  shows "consistent (snd (shutdown w st))"
proof -
  let ?P = "\<lambda>l. fst l \<notin> set (filter (\<lambda>i. removeListener_error w i = None)
                                     (map snd (subscriptions st)))"
  obtain r where r: "removeAll_listeners w (subscriptions st) (connection st) =
             (r, (connection st)\<lparr>listeners := filter ?P (listeners (connection st))\<rparr>)"
    using removeAll_listeners_snd [of w "subscriptions st" "connection st"]
    by (cases "removeAll_listeners w (subscriptions st) (connection st)") simp
  show ?thesis
  proof (cases r)
    case (Some err)
    from consistent_fewer_listeners [OF assms, of ?P] show ?thesis
      by (rule consistent_cong [rotated 2]) (simp_all add: shutdown_def r Some emit_def)
  next
    case None
    have ok: "list_all (\<lambda>e. removeListener_error w (snd e) = None) (subscriptions st)"
      using r None removeAll_listeners_None [of w "subscriptions st" "connection st"] by simp
    have "\<not> ?P l" if "l \<in> set (listeners (connection st))" for l
    proof -
      from assms that have "map_of (subscriptions st) (snd l) = Some (fst l)"
        by (simp add: consistent_iff)
      then have m: "(snd l, fst l) \<in> set (subscriptions st)" by (rule map_of_SomeD)
      with ok have "removeListener_error w (snd (snd l, fst l)) = None"
        unfolding list_all_iff by (rule bspec)
      moreover from m have "snd (snd l, fst l) \<in> snd ` set (subscriptions st)" by (rule imageI)
      ultimately show ?thesis by simp
    qed
    then have "filter ?P (listeners (connection st)) = []" by (simp add: filter_empty_conv)
    then show ?thesis by (simp add: shutdown_def r None emit_def consistent_def)
  qed
qed

lemma resumeHandlers_consistent:
  "consistent st \<Longrightarrow> consistent (snd (resumeHandlers w a hs st))"
proof (induction hs arbitrary: st)
  case Nil
  then show ?case by simp
next
  case (Cons h hs)
  from Cons.prems have c: "consistent (snd (setupWebSocketSubscription w a h st))"
    by (rule setup_consistent)
  show ?case
  proof (cases "setupWebSocketSubscription w a h st")
    case (Pair r st1)
    with c have c1: "consistent st1" by simp
    show ?thesis
      by (cases r) (simp_all add: Pair c1 Cons.IH)
  qed
qed

lemma resumeAddresses_consistent:
  "consistent st \<Longrightarrow> consistent (snd (resumeAddresses w as st))"
proof (induction as arbitrary: st)
  case Nil
  then show ?case by simp
next
  case (Cons a as)
  show ?case
  proof (cases "map_of (eventHandlers st) a")
    case None
    with Cons show ?thesis by simp
  next
    case (Some hs)
    from Cons.prems have c: "consistent (snd (resumeHandlers w a hs st))"
      by (rule resumeHandlers_consistent)
    show ?thesis
    proof (cases "resumeHandlers w a hs st")
      case (Pair r st1)
      with c have c1: "consistent st1" by simp
      show ?thesis
        by (cases r) (simp_all add: Some Pair c1 Cons.IH)
    qed
  qed
qed

lemma resumeTracking_consistent:
  assumes "consistent st"
  shows "consistent (snd (resumeTracking w st))"
proof (cases "isPaused st")
  case False
  with assms show ?thesis by (simp add: resumeTracking_def)
next
  case True
  from assms have c: "consistent (snd (resumeAddresses w (map fst (holdingsCache st)) st))"
    by (rule resumeAddresses_consistent)
  show ?thesis
  proof (cases "resumeAddresses w (map fst (holdingsCache st)) st")
    case (Pair r st1)
    with c have c1: "consistent st1" by simp
    have c2: "consistent (st1\<lparr>isPaused := False\<rparr>)"
      using c1 by (rule consistent_cong [rotated 2]) simp_all
    show ?thesis
      by (cases r) (simp_all add: resumeTracking_def True Pair c1 c2)
  qed
qed

lemma refreshOne_frame:
  "connection (refreshOne w a st) = connection st \<and>
   subscriptions (refreshOne w a st) = subscriptions st \<and>
   eventHandlers (refreshOne w a st) = eventHandlers st"
proof -
  obtain changes st1 where u: "updateWalletHoldings w a st = (Inr changes, st1)"
    by (simp add: updateWalletHoldings_eq)
  have st1: "connection st1 = connection st" "subscriptions st1 = subscriptions st"
    "eventHandlers st1 = eventHandlers st"
    using updateWalletHoldings_fields [of w a st] by (simp_all add: u)
  obtain r st2 where i: "invokeHandlers w (handlersOf st1 a) changes st1 = (r, st2)"
    by (cases "invokeHandlers w (handlersOf st1 a) changes st1")
  have st2: "connection st2 = connection st" "subscriptions st2 = subscriptions st"
    "eventHandlers st2 = eventHandlers st"
    using invokeHandlers_frame [of w "handlersOf st1 a" changes st1] by (simp_all add: i st1)
  show ?thesis
    by (cases r) (simp_all add: refreshOne_def u i st1 st2 emit_def)
qed

lemma fold_refreshOne_frame:
  "connection (fold (refreshOne w) as st) = connection st \<and>
   subscriptions (fold (refreshOne w) as st) = subscriptions st \<and>
   eventHandlers (fold (refreshOne w) as st) = eventHandlers st"
  by (induction as arbitrary: st) (simp_all add: refreshOne_frame)

lemma refreshAllHoldings_consistent:
  "consistent (snd (refreshAllHoldings w st)) = consistent st"
  by (rule consistent_frame) (simp_all add: refreshAllHoldings_def emit_def fold_refreshOne_frame)

lemma accountChangeHandler_frame:
  "connection (accountChangeHandler w finish a st) = connection st \<and>
   subscriptions (accountChangeHandler w finish a st) = subscriptions st \<and>
   eventHandlers (accountChangeHandler w finish a st) = eventHandlers st"
proof -
  obtain changes st1 where u: "updateWalletHoldings w a st = (Inr changes, st1)"
    by (simp add: updateWalletHoldings_eq)
  have st1: "connection st1 = connection st" "subscriptions st1 = subscriptions st"
    "eventHandlers st1 = eventHandlers st"
    using updateWalletHoldings_fields [of w a st] by (simp_all add: u)
  let ?st2 = "st1\<lparr>updateLatencies := updateLatencies st1 @ [finish - now w]\<rparr>"
  obtain r st3 where i: "invokeHandlers w (handlersOf ?st2 a) changes ?st2 = (r, st3)"
    by (cases "invokeHandlers w (handlersOf ?st2 a) changes ?st2")
  have st3: "connection st3 = connection st" "subscriptions st3 = subscriptions st"
    "eventHandlers st3 = eventHandlers st"
    using invokeHandlers_frame [of w "handlersOf ?st2 a" changes ?st2] by (simp_all add: i st1)
  show ?thesis
    by (cases r) (simp_all add: accountChangeHandler_def u i st1 st3 emit_def processingFailed_def Let_def)
qed

lemma step_consistent:
  assumes "consistent st"
  shows "consistent (step w op st)"
proof (cases op)
  case (Subscribe a cb)
  with assms show ?thesis by (simp add: setup_consistent)
next
  case (Unsubscribe a)
  with assms show ?thesis by (simp add: removeSubscription_consistent)
next
  case Shutdown
  with assms show ?thesis by (simp add: shutdown_consistent)
next
  case Pause
  with assms show ?thesis by (simp add: pauseTracking_consistent)
next
  case Resume
  with assms show ?thesis by (simp add: resumeTracking_consistent)
next
  case (Refresh a)
  with assms show ?thesis by simp
next
  case RefreshAll
  with assms show ?thesis by (simp add: refreshAllHoldings_consistent)
next
  case (AccountChanged i finish)
  show ?thesis
  proof (cases "map_of (listeners (connection st)) i")
    case None
    with assms AccountChanged show ?thesis by simp
  next
    case (Some a)
    from assms have "consistent (accountChangeHandler w finish a st)"
      by (rule consistent_cong [rotated 2]) (simp_all add: accountChangeHandler_frame)
    with AccountChanged Some show ?thesis by simp
  qed
qed

lemma consistent_one_watch:
  assumes "consistent st"
  shows "length (watchesOf st a) \<le> 1"
proof -
  let ?L = "listeners (connection st)"
  from assms have i: "distinct (map fst ?L)"
    and l: "\<And>l. l \<in> set ?L \<Longrightarrow> map_of (subscriptions st) (snd l) = Some (fst l)"
    by (simp_all add: consistent_iff)
  have d: "distinct (watchesOf st a)"
    unfolding watchesOf_def using i by (rule distinct_map_filter)
  have "set (watchesOf st a) \<subseteq> set_option (map_of (subscriptions st) a)"
    using l by (auto simp: watchesOf_def)
  then have "card (set (watchesOf st a)) \<le> card (set_option (map_of (subscriptions st) a))"
    by (intro card_mono) simp_all
  also have "\<dots> \<le> 1" by (cases "map_of (subscriptions st) a") simp_all
  finally show ?thesis using d by (simp add: distinct_card)
qed

lemma setup_multiplex:
  "valid w a \<Longrightarrow> map_of (subscriptions st) a \<noteq> None \<Longrightarrow>
   setupWebSocketSubscription w a cb st =
     (Inr (), st\<lparr>eventHandlers :=
                  AList.update a (set_add cb (handlersOf st a)) (eventHandlers st)\<rparr>)"
  by (simp add: setupWebSocketSubscription_def)

lemma set_set_add [simp]: "set (set_add cb hs) = insert cb (set hs)"
  by (auto simp: set_add_def)

lemma delivered_by_handler:
  assumes h: "h \<in> set (handlersOf st a)"
    and ok: "\<forall>h'\<in>set (handlersOf st a). handler_error w h' = None"
    and u: "fst (updateWalletHoldings w a st) = Inr changes" and ne: "changes \<noteq> []"
  shows "(h, changes) \<in> set (delivered (accountChangeHandler w finish a st))"
proof -
  obtain st1 where u1: "updateWalletHoldings w a st = (Inr changes, st1)"
    using u by (cases "updateWalletHoldings w a st") simp
  have e1: "eventHandlers st1 = eventHandlers st"
    using updateWalletHoldings_fields [of w a st] by (simp add: u1)
  let ?st2 = "st1\<lparr>updateLatencies := updateLatencies st1 @ [finish - now w]\<rparr>"
  have hs: "handlersOf ?st2 a = handlersOf st a" by (simp add: handlersOf_def e1)
  show ?thesis
    using ne h invokeHandlers_all_return [OF ok, of changes ?st2]
    by (simp add: accountChangeHandler_def u1 hs Let_def emit_def)
qed

lemma delivered_by_refresh:
  assumes h: "h \<in> set (handlersOf st a)"
    and ok: "\<forall>h'\<in>set (handlersOf st a). handler_error w h' = None"
    and u: "fst (updateWalletHoldings w a st) = Inr changes" and ne: "changes \<noteq> []"
  shows "(h, changes) \<in> set (delivered (refreshOne w a st))"
proof -
  obtain st1 where u1: "updateWalletHoldings w a st = (Inr changes, st1)"
    using u by (cases "updateWalletHoldings w a st") simp
  have e1: "eventHandlers st1 = eventHandlers st"
    using updateWalletHoldings_fields [of w a st] by (simp add: u1)
  have hs: "handlersOf st1 a = handlersOf st a" by (simp add: handlersOf_def e1)
  show ?thesis
    using ne h invokeHandlers_all_return [OF ok, of changes st1]
    by (simp add: refreshOne_def u1 hs emit_def)
qed

lemma invokeHandlers_delivered:
  "delivered (snd (invokeHandlers w hs changes st)) =
     delivered st @ map (\<lambda>h. (h, changes)) (reached w hs)"
  by (induction hs arbitrary: st) (simp_all add: Let_def split: option.split)

lemma reached_all_return:
  "\<forall>h\<in>set hs. handler_error w h = None \<Longrightarrow> reached w hs = hs"
  by (induction hs) simp_all

lemma reached_first_throw:
  "\<forall>x\<in>set pre. handler_error w x = None \<Longrightarrow> handler_error w t \<noteq> None \<Longrightarrow>
   reached w (pre @ t # post) = pre @ [t]"
  by (induction pre) auto

lemma handler_delivers_reached:
  assumes u: "fst (updateWalletHoldings w a st) = Inr changes" and ne: "changes \<noteq> []"
  shows "delivered (accountChangeHandler w finish a st) =
           delivered st @ map (\<lambda>h. (h, changes)) (reached w (handlersOf st a))"
proof -
  obtain st1 where u1: "updateWalletHoldings w a st = (Inr changes, st1)"
    using u by (cases "updateWalletHoldings w a st") simp
  have f1: "eventHandlers st1 = eventHandlers st" "delivered st1 = delivered st"
    using updateWalletHoldings_fields [of w a st] by (simp_all add: u1)
  let ?st2 = "st1\<lparr>updateLatencies := updateLatencies st1 @ [finish - now w]\<rparr>"
  have hs: "handlersOf ?st2 a = handlersOf st a" by (simp add: handlersOf_def f1)
  obtain r st3 where i: "invokeHandlers w (handlersOf st a) changes ?st2 = (r, st3)"
    by (cases "invokeHandlers w (handlersOf st a) changes ?st2")
  have d3: "delivered st3 = delivered st @ map (\<lambda>h. (h, changes)) (reached w (handlersOf st a))"
    using invokeHandlers_delivered [of w "handlersOf st a" changes ?st2] by (simp add: i f1)
  show ?thesis
    using ne
    by (cases r) (simp_all add: accountChangeHandler_def u1 hs i Let_def emit_def
          processingFailed_def d3)
qed

lemma setup_new:
  assumes "valid w a" and "map_of (subscriptions st) a = None"
    and "onAccountChange_error w a = None"
  shows "handlersOf (snd (setupWebSocketSubscription w a cb st)) a = [cb] \<and>
         listeners (connection (snd (setupWebSocketSubscription w a cb st))) =
           listeners (connection st) @ [(nextId (connection st), a)]"
  using assms
  by (simp add: setupWebSocketSubscription_def onAccountChange_def updateWalletHoldings_eq
        getTokenAccounts_fields emit_def Let_def handlersOf_def update_conv')

lemma no_watch_without_handle:
  assumes "consistent st" and "map_of (subscriptions st) a = None"
  shows "watchesOf st a = []"
proof -
  have "snd l \<noteq> a" if "l \<in> set (listeners (connection st))" for l
  proof
    assume "snd l = a"
    moreover from assms(1) that have "map_of (subscriptions st) (snd l) = Some (fst l)"
      by (simp add: consistent_iff)
    ultimately show False using assms(2) by simp
  qed
  then show ?thesis by (simp add: watchesOf_def filter_empty_conv)
qed

text \<open>
  Claim C4, as stated, fails. Wallet A is subscribed with callbacks 1 and 2; callback 1
  throws on a change batch, and callback 2 does not receive that batch. And a subscribe
  for wallet A on the paused tracker, where A has the retained callback set of callback
  1 and no watch handle, leaves callback 2 alone in the set.
\<close>

theorem multiplexing_counterexample:
  "step exampleWorld (Subscribe ''A'' 2) subscribedTracker = multiplexedTracker \<and>
   handlersOf multiplexedTracker ''A'' = [1, 2] \<and>
   fst (updateWalletHoldings firstThrowsWorld ''A'' multiplexedTracker) =
     Inr [\<lparr>ch_mint = ''X'', oldBalance = 1000, newBalance = 0, timestamp = 2000000,
           ch_decimals = 6\<rparr>] \<and>
   delivered (accountChangeHandler firstThrowsWorld 2000050 ''A'' multiplexedTracker) =
     [(1, [\<lparr>ch_mint = ''X'', oldBalance = 1000, newBalance = 0, timestamp = 2000000,
            ch_decimals = 6\<rparr>])] \<and>
   (2, [\<lparr>ch_mint = ''X'', oldBalance = 1000, newBalance = 0, timestamp = 2000000,
          ch_decimals = 6\<rparr>])
     \<notin> set (delivered (accountChangeHandler firstThrowsWorld 2000050 ''A'' multiplexedTracker)) \<and>
   handlersOf pausedTracker ''A'' = [1] \<and>
   fst (setupWebSocketSubscription exampleWorld ''A'' 2 pausedTracker) = Inr () \<and>
   handlersOf (snd (setupWebSocketSubscription exampleWorld ''A'' 2 pausedTracker)) ''A'' = [2]"
proof -
  have a: "step exampleWorld (Subscribe ''A'' 2) subscribedTracker = multiplexedTracker"
    by (simp add: setupWebSocketSubscription_def handlersOf_def set_add_def exampleWorld_def
          subscribedTracker_def multiplexedTracker_def)
  have b: "handlersOf multiplexedTracker ''A'' = [1, 2]"
    by (simp add: handlersOf_def multiplexedTracker_def)
  have c: "fst (updateWalletHoldings firstThrowsWorld ''A'' multiplexedTracker) =
     Inr [\<lparr>ch_mint = ''X'', oldBalance = 1000, newBalance = 0, timestamp = 2000000,
           ch_decimals = 6\<rparr>]"
    by (simp add: updateWalletHoldings_def getTokenAccounts_def firstThrowsWorld_def
          emptiedWorld_def exampleWorld_def subscribedTracker_def multiplexedTracker_def
          detectChanges_def)
  have d: "delivered (accountChangeHandler firstThrowsWorld 2000050 ''A'' multiplexedTracker) =
     [(1, [\<lparr>ch_mint = ''X'', oldBalance = 1000, newBalance = 0, timestamp = 2000000,
            ch_decimals = 6\<rparr>])]"
    by (simp add: accountChangeHandler_def updateWalletHoldings_def getTokenAccounts_def
          firstThrowsWorld_def emptiedWorld_def exampleWorld_def subscribedTracker_def
          multiplexedTracker_def detectChanges_def handlersOf_def processingFailed_def emit_def
          Let_def)
  have e: "(2, [\<lparr>ch_mint = ''X'', oldBalance = 1000, newBalance = 0, timestamp = 2000000,
          ch_decimals = 6\<rparr>])
     \<notin> set (delivered (accountChangeHandler firstThrowsWorld 2000050 ''A'' multiplexedTracker))"
    by (simp only: d) simp
  have f: "handlersOf pausedTracker ''A'' = [1]" by (simp add: handlersOf_def pausedTracker_def)
  have g: "fst (setupWebSocketSubscription exampleWorld ''A'' 2 pausedTracker) = Inr () \<and>
    handlersOf (snd (setupWebSocketSubscription exampleWorld ''A'' 2 pausedTracker)) ''A'' = [2]"
    by (simp add: setupWebSocketSubscription_def onAccountChange_def updateWalletHoldings_def
          getTokenAccounts_def emit_def detectChanges_def handlersOf_def exampleWorld_def
          pausedTracker_def Let_def)
  from a b c d e f g show ?thesis by (intro conjI) simp_all
qed

text \<open>
  Claim C4, amended. With every operation run to completion: in every state in which
  tracker and connection agree, every operation leads to a state in which they agree
  again and in which every address has at most one live listener. A subscribe for a valid
  address that has a watch handle only adds the callback to the callback set of the
  address; connection and \<open>subscriptions\<close> are unchanged. A subscribe for a valid
  address that has no watch handle (also one whose callback set a pause retained), when
  the watch opens, opens exactly one watch and makes the new callback the only member of
  the callback set. A notification with a non-empty change list invokes, in insertion
  order, the callbacks of the set up to and including the first that throws: every
  callback when none throws (this also holds for \<open>refreshAllHoldings\<close>), and none
  after a callback that throws.
\<close>

theorem multiplexing_invariant:
  assumes "consistent st"
  shows "consistent (step w op st) \<and>
         (\<forall>b. length (watchesOf (step w op st) b) \<le> 1) \<and>
         (valid w a \<and> map_of (subscriptions st) a \<noteq> None \<longrightarrow>
            setupWebSocketSubscription w a cb st =
              (Inr (), st\<lparr>eventHandlers :=
                           AList.update a (set_add cb (handlersOf st a)) (eventHandlers st)\<rparr>) \<and>
            set (handlersOf (snd (setupWebSocketSubscription w a cb st)) a) =
              insert cb (set (handlersOf st a))) \<and>
         (h \<in> set (handlersOf st a) \<and>
          (\<forall>h'\<in>set (handlersOf st a). handler_error w h' = None) \<and>
          fst (updateWalletHoldings w a st) = Inr changes \<and> changes \<noteq> [] \<longrightarrow>
            (h, changes) \<in> set (delivered (accountChangeHandler w finish a st)) \<and>
            (h, changes) \<in> set (delivered (refreshOne w a st))) \<and>
         (valid w a \<and> map_of (subscriptions st) a = None \<and> onAccountChange_error w a = None \<longrightarrow>
            handlersOf (snd (setupWebSocketSubscription w a cb st)) a = [cb] \<and>
            watchesOf (snd (setupWebSocketSubscription w a cb st)) a = [nextId (connection st)]) \<and>
         (fst (updateWalletHoldings w a st) = Inr changes \<and> changes \<noteq> [] \<longrightarrow>
            delivered (accountChangeHandler w finish a st) =
              delivered st @ map (\<lambda>x. (x, changes)) (reached w (handlersOf st a))) \<and>
         ((\<forall>x\<in>set hs. handler_error w x = None) \<longrightarrow> reached w hs = hs) \<and>
         ((\<forall>x\<in>set pre. handler_error w x = None) \<and> handler_error w t \<noteq> None \<longrightarrow>
            reached w (pre @ t # post) = pre @ [t])"
proof (intro conjI allI impI)
  show c: "consistent (step w op st)" using assms by (rule step_consistent)
  show "length (watchesOf (step w op st) b) \<le> 1" for b
    using c by (rule consistent_one_watch)
next
  assume v: "valid w a \<and> map_of (subscriptions st) a \<noteq> None"
  then show m: "setupWebSocketSubscription w a cb st =
              (Inr (), st\<lparr>eventHandlers :=
                           AList.update a (set_add cb (handlersOf st a)) (eventHandlers st)\<rparr>)"
    by (simp add: setup_multiplex)
  show "set (handlersOf (snd (setupWebSocketSubscription w a cb st)) a) =
              insert cb (set (handlersOf st a))"
    by (simp add: m handlersOf_def update_conv')
next
  assume d: "h \<in> set (handlersOf st a) \<and>
          (\<forall>h'\<in>set (handlersOf st a). handler_error w h' = None) \<and>
          fst (updateWalletHoldings w a st) = Inr changes \<and> changes \<noteq> []"
  then show "(h, changes) \<in> set (delivered (accountChangeHandler w finish a st))"
    by (intro delivered_by_handler) simp_all
  from d show "(h, changes) \<in> set (delivered (refreshOne w a st))"
    by (intro delivered_by_refresh) simp_all
next
  assume n: "valid w a \<and> map_of (subscriptions st) a = None \<and> onAccountChange_error w a = None"
  then have s: "handlersOf (snd (setupWebSocketSubscription w a cb st)) a = [cb]"
    and l: "listeners (connection (snd (setupWebSocketSubscription w a cb st))) =
           listeners (connection st) @ [(nextId (connection st), a)]"
    using setup_new [of w a st cb] by simp_all
  show "handlersOf (snd (setupWebSocketSubscription w a cb st)) a = [cb]" by (rule s)
  have "watchesOf st a = []" using assms n by (intro no_watch_without_handle) simp_all
  then show "watchesOf (snd (setupWebSocketSubscription w a cb st)) a = [nextId (connection st)]"
    by (simp add: watchesOf_def l)
next
  assume "fst (updateWalletHoldings w a st) = Inr changes \<and> changes \<noteq> []"
  then show "delivered (accountChangeHandler w finish a st) =
              delivered st @ map (\<lambda>x. (x, changes)) (reached w (handlersOf st a))"
    by (intro handler_delivers_reached) simp_all
next
  assume "\<forall>x\<in>set hs. handler_error w x = None"
  then show "reached w hs = hs" by (rule reached_all_return)
next
  assume "(\<forall>x\<in>set pre. handler_error w x = None) \<and> handler_error w t \<noteq> None"
  then show "reached w (pre @ t # post) = pre @ [t]"
    by (intro reached_first_throw) simp_all
qed

lemma freshTracker_consistent: "consistent freshTracker \<and> wellFormed freshTracker"
  by (simp add: consistent_def wellFormed_def freshTracker_def)

lemma subscribedTracker_reached:
  "setupWebSocketSubscription exampleWorld ''A'' 1 freshTracker = (Inr (), subscribedTracker)"
  by (simp add: setupWebSocketSubscription_def exampleWorld_def freshTracker_def subscribedTracker_def
      onAccountChange_def updateWalletHoldings_def getTokenAccounts_def emit_def newTokenChange_def)

lemma pausedTracker_reached:
  "pauseTracking exampleWorld subscribedTracker = (Inr (), pausedTracker)"
  by (simp add: pauseTracking_def exampleWorld_def pausedTracker_def subscribedTracker_def
      removeAccountChangeListener_def emit_def)

theorem multiplexing_invariant_witness:
  "consistent subscribedTracker \<and>
   valid exampleWorld ''A'' \<and> map_of (subscriptions subscribedTracker) ''A'' \<noteq> None \<and>
   consistent (step exampleWorld (Subscribe ''A'' 2) subscribedTracker) \<and>
   length (watchesOf (step exampleWorld (Subscribe ''A'' 2) subscribedTracker) ''A'') \<le> 1 \<and>
   step exampleWorld (Subscribe ''A'' 2) subscribedTracker = multiplexedTracker \<and>
   connection multiplexedTracker = connection subscribedTracker \<and>
   handlersOf multiplexedTracker ''A'' = [1, 2] \<and>
   handler_error emptiedWorld 1 = None \<and> handler_error emptiedWorld 2 = None \<and>
   fst (updateWalletHoldings emptiedWorld ''A'' multiplexedTracker)
     = Inr [\<lparr>ch_mint = ''X'', oldBalance = 1000, newBalance = 0, timestamp = 2000000,
             ch_decimals = 6\<rparr>] \<and>
   (1, [\<lparr>ch_mint = ''X'', oldBalance = 1000, newBalance = 0, timestamp = 2000000,
          ch_decimals = 6\<rparr>])
     \<in> set (delivered (accountChangeHandler emptiedWorld 2000050 ''A'' multiplexedTracker)) \<and>
   (2, [\<lparr>ch_mint = ''X'', oldBalance = 1000, newBalance = 0, timestamp = 2000000,
          ch_decimals = 6\<rparr>])
     \<in> set (delivered (accountChangeHandler emptiedWorld 2000050 ''A'' multiplexedTracker)) \<and>
   consistent pausedTracker \<and> map_of (subscriptions pausedTracker) ''A'' = None \<and>
   onAccountChange_error exampleWorld ''A'' = None \<and>
   handlersOf (snd (setupWebSocketSubscription exampleWorld ''A'' 2 pausedTracker)) ''A'' = [2] \<and>
   watchesOf (snd (setupWebSocketSubscription exampleWorld ''A'' 2 pausedTracker)) ''A'' = [2] \<and>
   handler_error firstThrowsWorld 1 \<noteq> None \<and>
   reached firstThrowsWorld (handlersOf multiplexedTracker ''A'') = [1] \<and>
   reached emptiedWorld (handlersOf multiplexedTracker ''A'') = [1, 2] \<and>
   delivered (accountChangeHandler emptiedWorld 2000050 ''A'' multiplexedTracker) =
     delivered multiplexedTracker @
       map (\<lambda>x. (x, [\<lparr>ch_mint = ''X'', oldBalance = 1000, newBalance = 0,
                          timestamp = 2000000, ch_decimals = 6\<rparr>]))
         (reached emptiedWorld (handlersOf multiplexedTracker ''A''))"
proof -
  let ?ch = "[\<lparr>ch_mint = ''X'', oldBalance = 1000, newBalance = 0, timestamp = 2000000,
               ch_decimals = 6\<rparr>]"
  let ?hs = "handlersOf multiplexedTracker ''A''"
  have c0: "consistent subscribedTracker" by (simp add: consistent_def subscribedTracker_def)
  have v: "valid exampleWorld ''A''" by (simp add: exampleWorld_def)
  have s: "map_of (subscriptions subscribedTracker) ''A'' \<noteq> None"
    by (simp add: subscribedTracker_def)
  note A = multiplexing_invariant [OF c0, of exampleWorld "Subscribe ''A'' 2" "''A''" 2 1 "[]" 0
      "[]" "[]" 1 "[]"]
  have c1: "consistent (step exampleWorld (Subscribe ''A'' 2) subscribedTracker)"
    by (rule A [THEN conjunct1])
  have w1: "length (watchesOf (step exampleWorld (Subscribe ''A'' 2) subscribedTracker) ''A'') \<le> 1"
    by (rule A [THEN conjunct2, THEN conjunct1, THEN spec])
  have vs: "valid exampleWorld ''A'' \<and> map_of (subscriptions subscribedTracker) ''A'' \<noteq> None"
    using v s by (rule conjI)
  have "setupWebSocketSubscription exampleWorld ''A'' 2 subscribedTracker =
          (Inr (), subscribedTracker\<lparr>eventHandlers :=
             AList.update ''A'' (set_add 2 (handlersOf subscribedTracker ''A''))
               (eventHandlers subscribedTracker)\<rparr>)"
    by (rule A [THEN conjunct2, THEN conjunct2, THEN conjunct1, THEN mp, OF vs, THEN conjunct1])
  then have st2: "step exampleWorld (Subscribe ''A'' 2) subscribedTracker = multiplexedTracker"
    by (simp add: handlersOf_def set_add_def subscribedTracker_def multiplexedTracker_def)
  have c2: "consistent multiplexedTracker" using c1 by (simp only: st2)
  have cn: "connection multiplexedTracker = connection subscribedTracker"
    by (simp add: multiplexedTracker_def)
  have hs: "?hs = [1, 2]" by (simp add: handlersOf_def multiplexedTracker_def)
  have ok: "handler_error emptiedWorld 1 = None" "handler_error emptiedWorld 2 = None"
    by (simp_all add: emptiedWorld_def exampleWorld_def)
  have ok': "\<forall>h'\<in>set ?hs. handler_error emptiedWorld h' = None"
    using ok by (simp only: hs) simp
  have u: "fst (updateWalletHoldings emptiedWorld ''A'' multiplexedTracker) = Inr ?ch"
    by (simp add: updateWalletHoldings_def getTokenAccounts_def emptiedWorld_def exampleWorld_def
          subscribedTracker_def multiplexedTracker_def detectChanges_def)
  have ne: "?ch \<noteq> []" by simp
  have m1: "1 \<in> set ?hs" by (simp only: hs) simp
  have m2: "2 \<in> set ?hs" by (simp only: hs) simp
  note B1 = multiplexing_invariant [OF c2, of emptiedWorld "Refresh ''A''" "''A''" 1 1 ?ch 2000050
      ?hs "[]" 1 "[2]"]
  note B2 = multiplexing_invariant [OF c2, of emptiedWorld "Refresh ''A''" "''A''" 1 2 ?ch 2000050
      ?hs "[]" 1 "[2]"]
  have p1: "1 \<in> set ?hs \<and> (\<forall>h'\<in>set ?hs. handler_error emptiedWorld h' = None) \<and>
            fst (updateWalletHoldings emptiedWorld ''A'' multiplexedTracker) = Inr ?ch \<and> ?ch \<noteq> []"
    using m1 ok' u ne by (intro conjI)
  have p2: "2 \<in> set ?hs \<and> (\<forall>h'\<in>set ?hs. handler_error emptiedWorld h' = None) \<and>
            fst (updateWalletHoldings emptiedWorld ''A'' multiplexedTracker) = Inr ?ch \<and> ?ch \<noteq> []"
    using m2 ok' u ne by (intro conjI)
  have d1: "(1, ?ch) \<in> set (delivered (accountChangeHandler emptiedWorld 2000050 ''A'' multiplexedTracker))"
    by (rule B1 [THEN conjunct2, THEN conjunct2, THEN conjunct2, THEN conjunct1, THEN mp, OF p1,
          THEN conjunct1])
  have d2: "(2, ?ch) \<in> set (delivered (accountChangeHandler emptiedWorld 2000050 ''A'' multiplexedTracker))"
    by (rule B2 [THEN conjunct2, THEN conjunct2, THEN conjunct2, THEN conjunct1, THEN mp, OF p2,
          THEN conjunct1])
  have cp: "consistent pausedTracker" by (simp add: consistent_def pausedTracker_def)
  have sp: "map_of (subscriptions pausedTracker) ''A'' = None" by (simp add: pausedTracker_def)
  have oe: "onAccountChange_error exampleWorld ''A'' = None" by (simp add: exampleWorld_def)
  have np: "nextId (connection pausedTracker) = 2" by (simp add: pausedTracker_def)
  note D = multiplexing_invariant [OF cp, of exampleWorld "Refresh ''A''" "''A''" 2 1 "[]" 0
      "[]" "[]" 1 "[]"]
  have pn: "valid exampleWorld ''A'' \<and> map_of (subscriptions pausedTracker) ''A'' = None \<and>
            onAccountChange_error exampleWorld ''A'' = None"
    using v sp oe by (intro conjI)
  note N = D [THEN conjunct2, THEN conjunct2, THEN conjunct2, THEN conjunct2, THEN conjunct1,
      THEN mp, OF pn]
  have n1: "handlersOf (snd (setupWebSocketSubscription exampleWorld ''A'' 2 pausedTracker)) ''A'' = [2]"
    by (rule N [THEN conjunct1])
  have n2: "watchesOf (snd (setupWebSocketSubscription exampleWorld ''A'' 2 pausedTracker)) ''A'' = [2]"
    using N [THEN conjunct2] by (simp only: np)
  have th: "handler_error firstThrowsWorld 1 \<noteq> None"
    by (simp add: firstThrowsWorld_def emptiedWorld_def exampleWorld_def)
  note C = multiplexing_invariant [OF c2, of firstThrowsWorld "Refresh ''A''" "''A''" 1 1 ?ch 2000050
      ?hs "[]" 1 "[2]"]
  have pt: "(\<forall>x\<in>set []. handler_error firstThrowsWorld x = None) \<and>
            handler_error firstThrowsWorld 1 \<noteq> None"
    using th by simp
  have "reached firstThrowsWorld ([] @ 1 # [2]) = [] @ [1]"
    by (rule C [THEN conjunct2, THEN conjunct2, THEN conjunct2, THEN conjunct2, THEN conjunct2,
          THEN conjunct2, THEN conjunct2, THEN mp, OF pt])
  then have r1: "reached firstThrowsWorld ?hs = [1]"
    by (simp only: hs append_Nil)
  have "reached emptiedWorld ?hs = ?hs"
    by (rule B1 [THEN conjunct2, THEN conjunct2, THEN conjunct2, THEN conjunct2, THEN conjunct2,
          THEN conjunct2, THEN conjunct1, THEN mp, OF ok'])
  then have r2: "reached emptiedWorld ?hs = [1, 2]" using hs by (rule trans)
  have pu: "fst (updateWalletHoldings emptiedWorld ''A'' multiplexedTracker) = Inr ?ch \<and> ?ch \<noteq> []"
    using u ne by (rule conjI)
  have dl: "delivered (accountChangeHandler emptiedWorld 2000050 ''A'' multiplexedTracker) =
     delivered multiplexedTracker @ map (\<lambda>x. (x, ?ch)) (reached emptiedWorld ?hs)"
    by (rule B1 [THEN conjunct2, THEN conjunct2, THEN conjunct2, THEN conjunct2, THEN conjunct2,
          THEN conjunct1, THEN mp, OF pu])
  from c0 v s c1 w1 st2 cn hs ok u d1 d2 cp sp oe n1 n2 th r1 r2 dl show ?thesis
    by (intro conjI)
qed

lemma pauseLoop_success:
  "pauseLoop w es st = (Inr (), st1) \<Longrightarrow>
   st1 = st\<lparr>connection := (connection st)\<lparr>listeners :=
                 filter (\<lambda>l. fst l \<notin> set (map snd es)) (listeners (connection st))\<rparr>,
            subscriptions := filter (\<lambda>e. fst e \<notin> set (map fst es)) (subscriptions st)\<rparr>"
proof (induction es arbitrary: st)
  case Nil
  then show ?case by simp
next
  case (Cons e es)
  obtain a i where e: "e = (a, i)" by (cases e)
  from Cons.prems have ok: "removeListener_error w i = None"
    by (cases "removeListener_error w i") (simp_all add: e removeAccountChangeListener_def)
  let ?st' = "st\<lparr>connection := (connection st)\<lparr>listeners :=
                   filter (\<lambda>l. fst l \<noteq> i) (listeners (connection st))\<rparr>,
               subscriptions := AList.delete a (subscriptions st)\<rparr>"
  from Cons.prems ok have "pauseLoop w es ?st' = (Inr (), st1)"
    by (simp add: e removeAccountChangeListener_def)
  from Cons.IH [OF this] show ?case
    by (simp add: e AList.delete_eq conj_commute case_prod_unfold eq_commute [of a])
qed

lemma filter_own_keys: "filter (\<lambda>e. fst e \<notin> fst ` set xs) xs = []"
  by (simp add: filter_empty_conv)

lemma consistent_all_named:
  assumes "consistent st"
  shows "filter (\<lambda>l. fst l \<notin> snd ` set (subscriptions st)) (listeners (connection st)) = []"
proof -
  have "fst l \<in> snd ` set (subscriptions st)" if "l \<in> set (listeners (connection st))" for l
  proof -
    from assms that have "map_of (subscriptions st) (snd l) = Some (fst l)"
      by (simp add: consistent_iff)
    then have "(snd l, fst l) \<in> set (subscriptions st)" by (rule map_of_SomeD)
    then have "snd (snd l, fst l) \<in> snd ` set (subscriptions st)" by (rule imageI)
    then show ?thesis by simp
  qed
  then show ?thesis by (simp add: filter_empty_conv)
qed

lemma pauseTracking_success:
  assumes "pauseTracking w st = (Inr (), st1)" and "\<not> isPaused st" and "consistent st"
  shows "st1 = st\<lparr>connection := (connection st)\<lparr>listeners := []\<rparr>, subscriptions := [],
                  isPaused := True, emitted := emitted st @ [EvPaused]\<rparr>"
proof -
  obtain r st' where p: "pauseLoop w (subscriptions st) st = (r, st')"
    by (cases "pauseLoop w (subscriptions st) st")
  from assms(1,2) p have r: "r = Inr ()" and s: "st1 = emit EvPaused (st'\<lparr>isPaused := True\<rparr>)"
    by (cases r; simp add: pauseTracking_def)+
  from pauseLoop_success [OF p [unfolded r]] s show ?thesis
    by (simp add: filter_own_keys consistent_all_named [OF assms(3)] emit_def)
qed

lemma fold_set_add_distinct:
  "distinct (cur @ hs) \<Longrightarrow> fold set_add hs cur = cur @ hs"
  by (induction hs arbitrary: cur) (simp_all add: set_add_def)

lemma resumeHandlers_multiplex:
  assumes "valid w a" and "map_of (subscriptions st) a \<noteq> None"
    and "map_of (eventHandlers st) a = Some cur"
  shows "resumeHandlers w a hs st =
           (Inr (), st\<lparr>eventHandlers := AList.update a (fold set_add hs cur) (eventHandlers st)\<rparr>)"
  using assms
proof (induction hs arbitrary: st cur)
  case Nil
  then show ?case by (simp add: update_triv)
next
  case (Cons h hs)
  let ?st1 = "st\<lparr>eventHandlers := AList.update a (set_add h cur) (eventHandlers st)\<rparr>"
  have s: "setupWebSocketSubscription w a h st = (Inr (), ?st1)"
    using Cons.prems by (simp add: setup_multiplex handlersOf_def)
  have "resumeHandlers w a hs ?st1 =
          (Inr (), ?st1\<lparr>eventHandlers :=
                       AList.update a (fold set_add hs (set_add h cur)) (eventHandlers ?st1)\<rparr>)"
    using Cons.prems by (intro Cons.IH) (simp_all add: update_conv')
  then show ?case by (simp add: s)
qed

lemma setup_new_success:
  assumes "setupWebSocketSubscription w a cb st = (Inr (), st')"
    and "map_of (subscriptions st) a = None"
  shows "valid w a \<and>
         eventHandlers st' = AList.update a [cb] (eventHandlers st) \<and>
         subscriptions st' = AList.update a (nextId (connection st)) (subscriptions st) \<and>
         holdingsCache st' = AList.update a (freshHoldings w a) (holdingsCache st) \<and>
         isPaused st' = isPaused st"
proof -
  from assms have v: "valid w a"
    by (cases "valid w a") (simp_all add: setupWebSocketSubscription_def)
  from assms v have o: "onAccountChange_error w a = None"
    by (cases "onAccountChange_error w a")
       (simp_all add: setupWebSocketSubscription_def onAccountChange_def)
  from assms v o show ?thesis
    by (auto simp: setupWebSocketSubscription_def onAccountChange_def updateWalletHoldings_eq
          getTokenAccounts_fields emit_def Let_def)
qed

lemma resumeHandlers_success:
  assumes r: "resumeHandlers w a hs st = (Inr (), st')"
    and m: "map_of (eventHandlers st) a = Some hs" and d: "distinct hs"
    and n: "map_of (subscriptions st) a = None" and ne: "hs \<noteq> []"
  shows "eventHandlers st' = eventHandlers st \<and>
         subscriptions st' = AList.update a (nextId (connection st)) (subscriptions st) \<and>
         holdingsCache st' = AList.update a (freshHoldings w a) (holdingsCache st) \<and>
         isPaused st' = isPaused st"
proof -
  from ne obtain h rest where hs: "hs = h # rest" by (cases hs) auto
  obtain r1 st1 where s: "setupWebSocketSubscription w a h st = (r1, st1)"
    by (cases "setupWebSocketSubscription w a h st")
  from r have r1: "r1 = Inr ()" by (cases r1) (simp_all add: hs s)
  from r have rest: "resumeHandlers w a rest st1 = (Inr (), st')" by (simp add: hs s r1)
  from setup_new_success [OF s [unfolded r1] n]
  have v: "valid w a" and e1: "eventHandlers st1 = AList.update a [h] (eventHandlers st)"
    and s1: "subscriptions st1 = AList.update a (nextId (connection st)) (subscriptions st)"
    and c1: "holdingsCache st1 = AList.update a (freshHoldings w a) (holdingsCache st)"
    and p1: "isPaused st1 = isPaused st"
    by simp_all
  have sub1: "map_of (subscriptions st1) a \<noteq> None" by (simp add: s1 update_conv')
  have cur1: "map_of (eventHandlers st1) a = Some [h]" by (simp add: e1 update_conv')
  have f: "fold set_add rest [h] = hs" using d by (simp add: hs fold_set_add_distinct)
  from resumeHandlers_multiplex [OF v sub1 cur1, of rest] rest
  have st': "st' = st1\<lparr>eventHandlers := AList.update a hs (eventHandlers st1)\<rparr>"
    by (simp add: f)
  have "AList.update a hs (eventHandlers st1) = eventHandlers st"
    using m by (simp add: e1 update_triv)
  with st' s1 c1 p1 show ?thesis by simp
qed

lemma resumeAddresses_success:
  assumes "resumeAddresses w as st = (Inr (), st')"
    and "distinct as" and "\<forall>a\<in>set as. map_of (subscriptions st) a = None"
    and "list_all (\<lambda>entry. distinct (snd entry)) (eventHandlers st)"
    and "set as \<subseteq> fst ` set (holdingsCache st)"
  shows "eventHandlers st' = eventHandlers st \<and> isPaused st' = isPaused st \<and>
         map fst (holdingsCache st') = map fst (holdingsCache st) \<and>
         (\<forall>b. map_of (holdingsCache st') b =
                (if b \<in> set as \<and> handlersOf st b \<noteq> [] then Some (freshHoldings w b)
                 else map_of (holdingsCache st) b)) \<and>
         (\<forall>b. (map_of (subscriptions st') b \<noteq> None) =
                (map_of (subscriptions st) b \<noteq> None \<or> (b \<in> set as \<and> handlersOf st b \<noteq> [])))"
  using assms
proof (induction as arbitrary: st)
  case Nil
  then show ?case by simp
next
  case (Cons a as)
  have da: "distinct as" and na: "a \<notin> set as" using Cons.prems(2) by simp_all
  show ?case
  proof (cases "handlersOf st a = []")
    case True
    have "resumeAddresses w as st = (Inr (), st')"
    proof (cases "map_of (eventHandlers st) a")
      case None
      with Cons.prems(1) show ?thesis by simp
    next
      case (Some hs)
      with True have "hs = []" by (simp add: handlersOf_def)
      with Cons.prems(1) Some show ?thesis by simp
    qed
    from Cons.IH [OF this da] Cons.prems(3,4,5)
    have IH: "eventHandlers st' = eventHandlers st \<and> isPaused st' = isPaused st \<and>
         map fst (holdingsCache st') = map fst (holdingsCache st) \<and>
         (\<forall>b. map_of (holdingsCache st') b =
                (if b \<in> set as \<and> handlersOf st b \<noteq> [] then Some (freshHoldings w b)
                 else map_of (holdingsCache st) b)) \<and>
         (\<forall>b. (map_of (subscriptions st') b \<noteq> None) =
                (map_of (subscriptions st) b \<noteq> None \<or> (b \<in> set as \<and> handlersOf st b \<noteq> [])))"
      by simp
    have eq: "(b \<in> set (a # as) \<and> handlersOf st b \<noteq> []) = (b \<in> set as \<and> handlersOf st b \<noteq> [])" for b
      using True by auto
    from IH show ?thesis unfolding eq .
  next
    case False
    then obtain hs where m: "map_of (eventHandlers st) a = Some hs" and ne: "hs \<noteq> []"
      by (cases "map_of (eventHandlers st) a") (simp_all add: handlersOf_def)
    from m have "(a, hs) \<in> set (eventHandlers st)" by (rule map_of_SomeD)
    with Cons.prems(4) have d: "distinct hs" by (auto simp: list_all_iff)
    have n: "map_of (subscriptions st) a = None" using Cons.prems(3) by simp
    obtain r st1 where rh: "resumeHandlers w a hs st = (r, st1)"
      by (cases "resumeHandlers w a hs st")
    from Cons.prems(1) have r: "r = Inr ()" by (cases r) (simp_all add: m rh)
    from Cons.prems(1) have rest: "resumeAddresses w as st1 = (Inr (), st')"
      by (simp add: m rh r)
    from resumeHandlers_success [OF rh [unfolded r] m d n ne]
    have e1: "eventHandlers st1 = eventHandlers st"
      and s1: "subscriptions st1 = AList.update a (nextId (connection st)) (subscriptions st)"
      and c1: "holdingsCache st1 = AList.update a (freshHoldings w a) (holdingsCache st)"
      and p1: "isPaused st1 = isPaused st"
      by simp_all
    have h1: "handlersOf st1 b = handlersOf st b" for b by (simp add: handlersOf_def e1)
    have ak: "a \<in> fst ` set (holdingsCache st)" using Cons.prems(5) by simp
    have k1: "map fst (holdingsCache st1) = map fst (holdingsCache st)"
      using ak by (simp add: c1 update_keys)
    have p3: "\<forall>b\<in>set as. map_of (subscriptions st1) b = None"
      using Cons.prems(3) na by (auto simp: s1 update_conv')
    have p4: "list_all (\<lambda>entry. distinct (snd entry)) (eventHandlers st1)"
      using Cons.prems(4) by (simp add: e1)
    have p5: "set as \<subseteq> fst ` set (holdingsCache st1)"
      using Cons.prems(5) by (auto simp: c1 dom_update)
    from Cons.IH [OF rest da p3 p4 p5]
    have IH: "eventHandlers st' = eventHandlers st1" "isPaused st' = isPaused st1"
      "map fst (holdingsCache st') = map fst (holdingsCache st1)"
      "\<And>b. map_of (holdingsCache st') b =
                (if b \<in> set as \<and> handlersOf st1 b \<noteq> [] then Some (freshHoldings w b)
                 else map_of (holdingsCache st1) b)"
      "\<And>b. (map_of (subscriptions st') b \<noteq> None) =
                (map_of (subscriptions st1) b \<noteq> None \<or> (b \<in> set as \<and> handlersOf st1 b \<noteq> []))"
      by simp_all
    have cache: "map_of (holdingsCache st') b =
                (if b \<in> set (a # as) \<and> handlersOf st b \<noteq> [] then Some (freshHoldings w b)
                 else map_of (holdingsCache st) b)" for b
      using False IH(4) [of b] by (cases "b = a") (simp_all add: h1 c1 update_conv')
    have subs: "(map_of (subscriptions st') b \<noteq> None) =
                (map_of (subscriptions st) b \<noteq> None \<or> (b \<in> set (a # as) \<and> handlersOf st b \<noteq> []))" for b
      using False IH(5) [of b] by (cases "b = a") (simp_all add: h1 s1 update_conv')
    from IH(1,2,3) e1 p1 k1 cache subs show ?thesis by simp
  qed
qed

text \<open>
  Claim C9, as stated, fails: after \<open>pauseTracking\<close> and \<open>resumeTracking\<close> the
  cached snapshot of wallet A is not the one from before the pause but the one read
  during the resume.
\<close>

theorem pause_resume_counterexample:
  "pauseTracking exampleWorld subscribedTracker = (Inr (), pausedTracker) \<and>
   fst (resumeTracking emptiedWorld pausedTracker) = Inr () \<and>
   map_of (holdingsCache subscribedTracker) ''A'' =
     Some \<lparr>address = ''A'', tokens = [\<lparr>mint = ''X'', amount = 1000, decimals = 6\<rparr>],
           lastUpdated = 1000000\<rparr> \<and>
   map_of (holdingsCache (snd (resumeTracking emptiedWorld pausedTracker))) ''A'' =
     Some \<lparr>address = ''A'', tokens = [], lastUpdated = 2000000\<rparr> \<and>
   delivered (snd (resumeTracking emptiedWorld pausedTracker)) = []"
  by (simp add: pausedTracker_reached)
     (simp add: resumeTracking_def setupWebSocketSubscription_def onAccountChange_def
        updateWalletHoldings_def getTokenAccounts_def emit_def detectChanges_def
        pausedTracker_def subscribedTracker_def emptiedWorld_def exampleWorld_def)

text \<open>
  Claim C9, amended. On a tracker that is not paused, a \<open>pauseTracking\<close> that succeeds
  removes every entry of \<open>subscriptions\<close> and every listener they name, and leaves
  callback sets and cached snapshots untouched; a \<open>resumeTracking\<close> that succeeds after
  it leaves the callback sets as they were before the pause and the cache with the same
  addresses, re-opens one watch for each cached address with a non-empty callback set,
  and replaces the snapshot of each such address by the one read during the resume (the
  other snapshots are untouched). \<open>pauseTracking\<close> on a paused tracker and
  \<open>resumeTracking\<close> on one that is not paused change nothing.
\<close>

theorem pause_resume_roundtrip:
  "(wellFormed st \<and> consistent st \<and> \<not> isPaused st \<and>
    pauseTracking w st = (Inr (), st1) \<and> resumeTracking w' st1 = (Inr (), st2) \<longrightarrow>
      st1 = st\<lparr>connection := (connection st)\<lparr>listeners := []\<rparr>, subscriptions := [],
               isPaused := True, emitted := emitted st @ [EvPaused]\<rparr> \<and>
      eventHandlers st2 = eventHandlers st \<and>
      map fst (holdingsCache st2) = map fst (holdingsCache st) \<and>
      \<not> isPaused st2 \<and>
      (\<forall>a. (map_of (subscriptions st2) a \<noteq> None) =
              (a \<in> fst ` set (holdingsCache st) \<and> handlersOf st a \<noteq> [])) \<and>
      (\<forall>a. map_of (holdingsCache st2) a =
              (if a \<in> fst ` set (holdingsCache st) \<and> handlersOf st a \<noteq> []
               then Some (freshHoldings w' a) else map_of (holdingsCache st) a))) \<and>
   (isPaused st \<longrightarrow> pauseTracking w st = (Inr (), st)) \<and>
   (\<not> isPaused st \<longrightarrow> resumeTracking w st = (Inr (), st))"
proof (intro conjI impI)
  assume a: "wellFormed st \<and> consistent st \<and> \<not> isPaused st \<and>
    pauseTracking w st = (Inr (), st1) \<and> resumeTracking w' st1 = (Inr (), st2)"
  then have st1: "st1 = st\<lparr>connection := (connection st)\<lparr>listeners := []\<rparr>, subscriptions := [],
               isPaused := True, emitted := emitted st @ [EvPaused]\<rparr>"
    by (intro pauseTracking_success [of w]) simp_all
  have f1: "eventHandlers st1 = eventHandlers st" "holdingsCache st1 = holdingsCache st"
    "subscriptions st1 = []" "isPaused st1"
    by (simp_all add: st1)
  obtain r st' where ra: "resumeAddresses w' (map fst (holdingsCache st1)) st1 = (r, st')"
    by (cases "resumeAddresses w' (map fst (holdingsCache st1)) st1")
  from a f1(4) have r: "r = Inr ()" by (cases r) (simp_all add: resumeTracking_def ra)
  from a f1(4) have st2: "st2 = emit EvResumed (st'\<lparr>isPaused := False\<rparr>)"
    by (simp add: resumeTracking_def ra r)
  from a have wf: "distinct (map fst (holdingsCache st1))"
    "list_all (\<lambda>entry. distinct (snd entry)) (eventHandlers st1)"
    by (simp_all add: wellFormed_def f1)
  have h1: "handlersOf st1 b = handlersOf st b" for b by (simp add: handlersOf_def f1)
  from resumeAddresses_success [OF ra [unfolded r] wf(1) _ wf(2)]
  have R: "eventHandlers st' = eventHandlers st1"
    "map fst (holdingsCache st') = map fst (holdingsCache st1)"
    "\<And>b. map_of (holdingsCache st') b =
                (if b \<in> set (map fst (holdingsCache st1)) \<and> handlersOf st1 b \<noteq> []
                 then Some (freshHoldings w' b) else map_of (holdingsCache st1) b)"
    "\<And>b. (map_of (subscriptions st') b \<noteq> None) =
                (map_of (subscriptions st1) b \<noteq> None \<or>
                 (b \<in> set (map fst (holdingsCache st1)) \<and> handlersOf st1 b \<noteq> []))"
    by (simp_all add: f1)
  show "st1 = st\<lparr>connection := (connection st)\<lparr>listeners := []\<rparr>, subscriptions := [],
               isPaused := True, emitted := emitted st @ [EvPaused]\<rparr>" by (rule st1)
  show "eventHandlers st2 = eventHandlers st" by (simp add: st2 emit_def R(1) f1)
  show "map fst (holdingsCache st2) = map fst (holdingsCache st)"
    by (simp add: st2 emit_def R(2) f1)
  show "\<not> isPaused st2" by (simp add: st2 emit_def)
  show "\<forall>a. (map_of (subscriptions st2) a \<noteq> None) =
              (a \<in> fst ` set (holdingsCache st) \<and> handlersOf st a \<noteq> [])"
    using R(4) by (simp add: st2 emit_def f1 h1)
  show "\<forall>a. map_of (holdingsCache st2) a =
              (if a \<in> fst ` set (holdingsCache st) \<and> handlersOf st a \<noteq> []
               then Some (freshHoldings w' a) else map_of (holdingsCache st) a)"
    using R(3) by (simp add: st2 emit_def f1 h1)
next
  assume "isPaused st"
  then show "pauseTracking w st = (Inr (), st)" by (simp add: pauseTracking_def)
next
  assume "\<not> isPaused st"
  then show "resumeTracking w st = (Inr (), st)" by (simp add: resumeTracking_def)
qed

theorem pause_resume_roundtrip_witness:
  "wellFormed subscribedTracker \<and> consistent subscribedTracker \<and> \<not> isPaused subscribedTracker \<and>
   pauseTracking exampleWorld subscribedTracker = (Inr (), pausedTracker) \<and>
   resumeTracking emptiedWorld pausedTracker = (Inr (), resumedTracker) \<and>
   eventHandlers resumedTracker = eventHandlers subscribedTracker \<and>
   map fst (holdingsCache resumedTracker) = map fst (holdingsCache subscribedTracker) \<and>
   map_of (subscriptions resumedTracker) ''A'' \<noteq> None \<and>
   map_of (holdingsCache resumedTracker) ''A'' = Some (freshHoldings emptiedWorld ''A'') \<and>
   isPaused pausedTracker \<and>
   pauseTracking exampleWorld pausedTracker = (Inr (), pausedTracker) \<and>
   resumeTracking exampleWorld subscribedTracker = (Inr (), subscribedTracker)"
proof -
  have wf: "wellFormed subscribedTracker" by (simp add: wellFormed_def subscribedTracker_def)
  have c: "consistent subscribedTracker" by (simp add: consistent_def subscribedTracker_def)
  have np: "\<not> isPaused subscribedTracker" by (simp add: subscribedTracker_def)
  have ip: "isPaused pausedTracker" by (simp add: pausedTracker_def)
  have p: "pauseTracking exampleWorld subscribedTracker = (Inr (), pausedTracker)"
    by (rule pausedTracker_reached)
  have r: "resumeTracking emptiedWorld pausedTracker = (Inr (), resumedTracker)"
    by (simp add: resumeTracking_def setupWebSocketSubscription_def onAccountChange_def
        updateWalletHoldings_def getTokenAccounts_def emit_def detectChanges_def
        pausedTracker_def resumedTracker_def emptiedWorld_def exampleWorld_def)
  have k: "''A'' \<in> fst ` set (holdingsCache subscribedTracker)"
    "handlersOf subscribedTracker ''A'' \<noteq> []"
    by (simp_all add: subscribedTracker_def handlersOf_def)
  note t = pause_resume_roundtrip [of subscribedTracker exampleWorld pausedTracker emptiedWorld resumedTracker]
  from t wf c np p r have e: "eventHandlers resumedTracker = eventHandlers subscribedTracker"
    and m: "map fst (holdingsCache resumedTracker) = map fst (holdingsCache subscribedTracker)"
    by blast+
  from t wf c np p r k have s: "map_of (subscriptions resumedTracker) ''A'' \<noteq> None"
    by blast
  from t wf c np p r k
  have h: "map_of (holdingsCache resumedTracker) ''A'' = Some (freshHoldings emptiedWorld ''A'')"
    by simp
  from pause_resume_roundtrip [of pausedTracker exampleWorld] ip
  have n1: "pauseTracking exampleWorld pausedTracker = (Inr (), pausedTracker)" by blast
  from t np
  have n2: "resumeTracking exampleWorld subscribedTracker = (Inr (), subscribedTracker)" by blast
  from wf c np p r e m s h ip n1 n2 show ?thesis by (intro conjI)
qed

end
